(* ===== verification/Netstack_Prelude.thy ===== *)
theory Netstack_Prelude
  imports Main "HOL-Library.Word" "HOL-Library.Monad_Syntax" "HOL-Library.AList" "HOL-Library.Multiset"
begin

text \<open>
  Shared ground of the development: the machine types of the Rust sources, the few operations of
  the Rust standard library the sources use (\<open>usize::saturating_sub\<close>, \<open>HashMap\<close>), iteration that
  may panic, and the generic lemmas the component theories build on.

  Conventions. A Rust \<open>usize\<close> is a \<open>64 word\<close> and a \<open>u16\<close> a \<open>16 word\<close>; \<open>+\<close> and \<open>*\<close> on them wrap
  around, as in the release profile. A function that may panic returns an option: \<open>None\<close> is the
  panic, and sequencing is the option monad. A \<open>HashMap\<close> is an association list with distinct
  keys; its iteration order is unspecified in Rust, so a loop over a map takes a ranking of the keys
  as a parameter and visits them in the order of their rank. Since every order of distinct keys is
  the order of some ranking, a theorem for all rankings is a theorem for all iteration orders.
\<close>

section \<open>Collections of facts\<close>

named_theorems wf_intros \<open>introduction rules for the well-formedness predicates\<close>
named_theorems frame_simps \<open>which fields an operation leaves alone\<close>

section \<open>Machine types\<close>

type_synonym u8 = "8 word"
type_synonym u16 = "16 word"
type_synonym usize = "64 word"
type_synonym bytes = "u8 list"

definition saturating_sub :: "usize \<Rightarrow> usize \<Rightarrow> usize" where
  "saturating_sub a b = (if b \<le> a then a - b else 0)"

lemma unat_saturating_sub [simp]: "unat (saturating_sub a b) = unat a - unat b"
  by (simp add: saturating_sub_def unat_sub word_le_nat_alt)

lemma saturating_sub_le [simp]: "saturating_sub a b \<le> a"
  by (simp add: word_le_nat_alt)

lemma unat_usize_bound [simp]: "unat (a :: usize) < 2 ^ 64"
  using unsigned_less [of a] by simp

lemma unat_usize_add:
  "unat (a :: usize) + unat b < 2 ^ 64 \<Longrightarrow> unat (a + b) = unat a + unat b"
  by (simp add: unat_word_ariths)

lemma unat_usize_mult:
  "unat (a :: usize) * unat b < 2 ^ 64 \<Longrightarrow> unat (a * b) = unat a * unat b"
  by (simp add: unat_word_ariths)

lemma unat_usize_max: "unat (max (a :: usize) b) = max (unat a) (unat b)"
  by (simp add: max_def word_le_nat_alt)

section \<open>Iteration that may panic\<close>

text \<open>A \<open>for\<close> loop over a list whose body changes a state and may panic.\<close>

primrec for_each :: "('a \<Rightarrow> 's \<Rightarrow> 's option) \<Rightarrow> 'a list \<Rightarrow> 's \<Rightarrow> 's option" where
  "for_each f [] s = Some s"
| "for_each f (x # xs) s = f x s \<bind> for_each f xs"

lemma for_each_append: "for_each f (xs @ ys) s = for_each f xs s \<bind> for_each f ys"
  by (induction xs arbitrary: s) (simp_all add: bind_eq_Some_conv split: Option.bind_splits)

text \<open>A loop invariant that mentions the elements still to be visited.\<close>

lemma for_each_inv:
  assumes "I xs s"
    and "\<And>x ys s. I (x # ys) s \<Longrightarrow> x \<in> set xs \<Longrightarrow> \<exists>s'. f x s = Some s' \<and> I ys s'"
  shows "\<exists>s'. for_each f xs s = Some s' \<and> I [] s'"
  using assms
proof (induction xs arbitrary: s)
  case Nil
  then show ?case by simp
next
  case (Cons x xs)
  then obtain s' where "f x s = Some s'" "I xs s'" by (meson list.set_intros(1))
  moreover have "\<exists>s''. for_each f xs s' = Some s'' \<and> I [] s''"
    using Cons.IH [OF \<open>I xs s'\<close>] Cons.prems(2) by auto
  ultimately show ?case by simp
qed

text \<open>The common case: an invariant of the state alone.\<close>

lemma for_each_keeps:
  assumes "I s" and "\<And>x s. I s \<Longrightarrow> x \<in> set xs \<Longrightarrow> \<exists>s'. f x s = Some s' \<and> I s'"
  shows "\<exists>s'. for_each f xs s = Some s' \<and> I s'"
  using for_each_inv [of "\<lambda>_. I" xs s f] assms by blast

lemma for_each_result:
  assumes "for_each f xs s = Some s'" and "I s"
    and "\<And>x s s'. I s \<Longrightarrow> x \<in> set xs \<Longrightarrow> f x s = Some s' \<Longrightarrow> I s'"
  shows "I s'"
  using assms
proof (induction xs arbitrary: s)
  case Nil
  then show ?case by simp
next
  case (Cons x xs)
  from Cons.prems(1) obtain t where t: "f x s = Some t" "for_each f xs t = Some s'"
    by (auto simp: bind_eq_Some_conv)
  from Cons.prems(2,3) t(1) have "I t" by (meson list.set_intros(1))
  from Cons.IH [OF t(2) this] Cons.prems(3) show ?case by (meson list.set_intros(2))
qed

section \<open>Hash maps\<close>

type_synonym ('k, 'v) hash_map = "('k \<times> 'v) list"

abbreviation hm_get :: "('k, 'v) hash_map \<Rightarrow> 'k \<Rightarrow> 'v option" where
  "hm_get \<equiv> map_of"

abbreviation hm_insert :: "'k \<Rightarrow> 'v \<Rightarrow> ('k, 'v) hash_map \<Rightarrow> ('k, 'v) hash_map" where
  "hm_insert \<equiv> AList.update"

abbreviation hm_remove :: "'k \<Rightarrow> ('k, 'v) hash_map \<Rightarrow> ('k, 'v) hash_map" where
  "hm_remove \<equiv> AList.delete"

abbreviation hm_wf :: "('k, 'v) hash_map \<Rightarrow> bool" where
  "hm_wf m \<equiv> distinct (map fst m)"

text \<open>The entries in the iteration order of the ranking \<open>r\<close>.\<close>

definition hm_iter :: "('k \<Rightarrow> nat) \<Rightarrow> ('k, 'v) hash_map \<Rightarrow> ('k \<times> 'v) list" where
  "hm_iter r m = sort_key (\<lambda>e. r (fst e)) m"

lemma set_hm_iter [simp]: "set (hm_iter r m) = set m"
  by (simp add: hm_iter_def)

lemma length_hm_iter [simp]: "length (hm_iter r m) = length m"
  by (simp add: hm_iter_def)

lemma mset_hm_iter [simp]: "mset (hm_iter r m) = mset m"
  by (simp add: hm_iter_def)

lemma distinct_hm_iter [simp]: "distinct (map fst (hm_iter r m)) = hm_wf m"
proof -
  have "mset (map fst (hm_iter r m)) = mset (map fst m)" by simp
  then show ?thesis by (rule mset_eq_imp_distinct_iff)
qed

text \<open>Every order of the entries of a map is the iteration order of some ranking.\<close>

lemma hm_iter_any_order:
  assumes "mset es = mset m" and "hm_wf m"
  shows "\<exists>r. hm_iter r m = es"
proof -
  define idx where "idx k = (LEAST i. i < length es \<and> fst (es ! i) = k)" for k
  have dist: "distinct (map fst es)"
    using assms mset_eq_imp_distinct_iff [of "map fst es" "map fst m"] by simp
  have at: "idx (fst (es ! i)) = i" if "i < length es" for i
    unfolding idx_def
    by (rule Least_equality) (use that dist in \<open>auto simp: distinct_conv_nth\<close>)
  have "map (\<lambda>e. idx (fst e)) es = [0..<length es]"
    by (rule nth_equalityI) (simp_all add: at)
  then have "sorted (map (\<lambda>e. idx (fst e)) es)" by simp
  moreover have "inj_on (\<lambda>e. idx (fst e)) (set es)"
    by (rule inj_onI) (metis at in_set_conv_nth)
  ultimately have "sort_key (\<lambda>e. idx (fst e)) m = es"
    using assms(1) by (intro sort_key_inj_key_eq) (auto dest: mset_eq_setD)
  then show ?thesis by (auto simp: hm_iter_def)
qed

text \<open>Lookups stay lookups: the library would rewrite them to membership in the entry list.\<close>

declare map_of_eq_Some_iff [simp del] Some_eq_map_of_iff [simp del]

lemma hm_get_in: "hm_wf m \<Longrightarrow> (k, v) \<in> set m \<longleftrightarrow> hm_get m k = Some v"
  by (simp add: map_of_eq_Some_iff)

lemma hm_wf_insert [simp]: "hm_wf m \<Longrightarrow> hm_wf (hm_insert k v m)"
  by (rule distinct_update)

lemma hm_wf_remove [simp]: "hm_wf m \<Longrightarrow> hm_wf (hm_remove k m)"
  by (rule distinct_delete)

lemma hm_get_insert [simp]:
  "hm_get (hm_insert k v m) k' = (if k' = k then Some v else hm_get m k')"
  by (simp add: update_conv')

lemma hm_get_remove [simp]:
  "hm_get (hm_remove k m) k' = (if k' = k then None else hm_get m k')"
  by (simp add: delete_conv')

lemma hm_len_insert:
  "length (hm_insert k v m) = (if hm_get m k = None then Suc (length m) else length m)"
  by (induction m) auto

lemma hm_insert_fresh: "hm_get m k = None \<Longrightarrow> hm_insert k v m = m @ [(k, v)]"
  by (induction m) (auto split: if_splits)

lemma hm_len_remove:
  "hm_wf m \<Longrightarrow> length (hm_remove k m) = (if hm_get m k = None then length m else length m - 1)"
proof (induction m)
  case (Cons e m)
  have "length (hm_remove k m) = length m" if "k \<notin> fst ` set m"
    using that by (simp add: delete_idem)
  moreover have "0 < length m" if "hm_get m k = Some v" for v
    using that by (cases m) auto
  ultimately show ?case using Cons
    by (cases e) (auto simp: map_of_eq_None_iff image_iff split: if_splits)
qed simp

end
