(* ===== verification/Net_Types.thy ===== *)
theory Net_Types
  imports Netstack_Prelude
begin

text \<open>
  The identifiers and addresses the components exchange: \<open>InterfaceId\<close> (\<open>src/src/lib.rs\<close>), the
  session keys of \<open>src/src/session/types.rs\<close>, the public errors of \<open>src/src/error.rs\<close>, the packets of
  \<open>src/src/handle.rs\<close>, and the conversion \<open>to_socket_addr\<close> of \<open>src/src/runner.rs\<close>. IP addresses are
  the two-constructor enums of \<open>smoltcp::wire\<close> and \<open>std::net\<close>, endpoints are an address and a port.
\<close>

section \<open>Interface identifiers\<close>

datatype interface_id = InterfaceId u16

definition interface_id_new :: "u16 \<Rightarrow> interface_id option" where
  "interface_id_new raw = Some (InterfaceId raw)"

primrec interface_id_get :: "interface_id \<Rightarrow> u16" where
  "interface_id_get (InterfaceId raw) = raw"

text \<open>Numbers in decimal, as \<open>Display\<close> writes them.\<close>

definition digit :: "nat \<Rightarrow> char" where
  "digit n = char_of (48 + n)"

fun decimal :: "nat \<Rightarrow> string" where
  "decimal n = (if n < 10 then [digit n] else decimal (n div 10) @ [digit (n mod 10)])"

declare decimal.simps [simp del]

definition interface_id_display :: "interface_id \<Rightarrow> string" where
  "interface_id_display i = ''if'' @ decimal (unat (interface_id_get i))"

lemma digit_inject: "m < 10 \<Longrightarrow> n < 10 \<Longrightarrow> digit m = digit n \<longleftrightarrow> m = n"
  by (simp add: digit_def char_of_eq_iff take_bit_nat_eq_self)

lemma decimal_inject: "decimal m = decimal n \<longleftrightarrow> m = n"
proof (induction m arbitrary: n rule: decimal.induct)
  case (1 m)
  have nonempty [simp]: "decimal k \<noteq> []" "[] \<noteq> decimal k" for k by (simp_all add: decimal.simps [of k])
  show ?case
  proof (cases "m < 10 \<or> n < 10")
    case True
    then show ?thesis
      by (auto simp: decimal.simps [of m] decimal.simps [of n] digit_inject)
  next
    case False
    then have "decimal m = decimal n \<longleftrightarrow> m div 10 = n div 10 \<and> m mod 10 = n mod 10"
      using 1 [of "n div 10"] by (simp add: decimal.simps [of m] decimal.simps [of n] digit_inject)
    then show ?thesis by (metis div_mult_mod_eq)
  qed
qed

text \<open>The printed name of an interface identifies it.\<close>

lemma interface_id_display_inject: "interface_id_display a = interface_id_display b \<longleftrightarrow> a = b"
  by (cases a; cases b) (simp add: interface_id_display_def decimal_inject flip: word_unat_eq_iff)

instantiation interface_id :: linorder
begin

definition less_eq_interface_id :: "interface_id \<Rightarrow> interface_id \<Rightarrow> bool" where
  "less_eq_interface_id a b \<longleftrightarrow> interface_id_get a \<le> interface_id_get b"

definition less_interface_id :: "interface_id \<Rightarrow> interface_id \<Rightarrow> bool" where
  "less_interface_id a b \<longleftrightarrow> interface_id_get a < interface_id_get b"

instance
proof
  fix a b :: interface_id
  show "a \<le> b \<Longrightarrow> b \<le> a \<Longrightarrow> a = b"
    by (cases a; cases b) (simp add: less_eq_interface_id_def)
qed (auto simp: less_eq_interface_id_def less_interface_id_def)

end

section \<open>Addresses, endpoints and session keys\<close>

datatype ip_address = Ipv4 "32 word" | Ipv6 "128 word"

record ip_endpoint =
  ep_addr :: ip_address
  ep_port :: u16

record ip_listen_endpoint =
  le_addr :: "ip_address option"
  le_port :: u16

datatype proto = ProtoTcp | ProtoUdp

record session_key =
  sk_interface :: interface_id
  sk_proto :: proto
  sk_src :: ip_endpoint
  sk_dst :: ip_endpoint

definition session_key_new ::
    "interface_id \<Rightarrow> proto \<Rightarrow> ip_endpoint \<Rightarrow> ip_endpoint \<Rightarrow> session_key" where
  "session_key_new interface proto src dst =
     \<lparr>sk_interface = interface, sk_proto = proto, sk_src = src, sk_dst = dst\<rparr>"

text \<open>\<open>std::net::SocketAddr\<close>; a V6 address also carries a flow label and a scope.\<close>

datatype socket_addr =
    SocketAddrV4 "32 word" u16
  | SocketAddrV6 "128 word" u16 "32 word" "32 word"

fun socket_addr_new :: "ip_address \<Rightarrow> u16 \<Rightarrow> socket_addr" where
  "socket_addr_new (Ipv4 a) port = SocketAddrV4 a port"
| "socket_addr_new (Ipv6 a) port = SocketAddrV6 a port 0 0"

definition to_socket_addr :: "ip_endpoint \<Rightarrow> socket_addr" where
  "to_socket_addr ep = socket_addr_new (ep_addr ep) (ep_port ep)"

text \<open>The addresses shown to the application identify the endpoints: the conversion is injective.\<close>

lemma to_socket_addr_inject: "to_socket_addr a = to_socket_addr b \<longleftrightarrow> a = b"
  by (cases a; cases b; cases "ep_addr a"; cases "ep_addr b") (auto simp: to_socket_addr_def)

section \<open>Errors and packets\<close>

datatype netstack_error =
    InterfaceNotFound interface_id
  | ChannelClosed
  | ChannelFull
  | SessionLimitReached
  | InvalidPacket
  | UnsupportedProtocol
  | TcpNotOpen
  | TcpBufferFull
  | UdpNotOpen
  | UdpBufferFull
  | Internal string

fun is_udp_buffer_full :: "netstack_error \<Rightarrow> bool" where
  "is_udp_buffer_full UdpBufferFull = True"
| "is_udp_buffer_full _ = False"

text \<open>The messages of the \<open>error\<close> attributes; \<open>InterfaceId\<close> is printed with its derived \<open>Debug\<close>.\<close>

fun error_display :: "netstack_error \<Rightarrow> string" where
  "error_display (InterfaceNotFound i) =
     ''interface InterfaceId('' @ decimal (unat (interface_id_get i)) @ '') is not registered''"
| "error_display ChannelClosed = ''netstack channel is closed''"
| "error_display ChannelFull = ''netstack ingress channel is full''"
| "error_display SessionLimitReached = ''session limit reached''"
| "error_display InvalidPacket = ''invalid IP packet''"
| "error_display UnsupportedProtocol = ''unsupported protocol''"
| "error_display TcpNotOpen = ''TCP stream is not open''"
| "error_display TcpBufferFull = ''TCP send buffer full''"
| "error_display UdpNotOpen = ''UDP session is not open''"
| "error_display UdpBufferFull = ''UDP send buffer full''"
| "error_display (Internal msg) = ''internal error: '' @ msg"

text \<open>Different errors are reported differently.\<close>

lemma error_display_inject: "error_display a = error_display b \<longleftrightarrow> a = b"
proof -
  have inj: "interface_id_get i = interface_id_get j \<longleftrightarrow> i = j" for i j by (cases i; cases j) simp
  show ?thesis
    by (cases a; cases b) (simp_all add: decimal_inject inj flip: word_unat_eq_iff)
qed

record egress_packet =
  eg_interface_id :: interface_id
  eg_data :: bytes

record ingress_packet =
  ig_interface :: interface_id
  ig_data :: bytes

end
