(* ===== verification/Fifo_Interface.thy ===== *)
theory Fifo_Interface
  imports Netstack_Prelude
begin

text \<open>
  The contract of a first-in first-out queue, which both the packet queues of the virtual device and
  the datagram queue of a UDP session promise: \<open>items\<close> is what a queue holds, oldest first. The
  client lemmas are proved once here; \<open>Virtual_Device\<close> and \<open>Session_Manager\<close> interpret the locale on
  their operations.
\<close>

locale fifo =
  fixes items :: "'q \<Rightarrow> 'a list"
    and push :: "'a \<Rightarrow> 'q \<Rightarrow> 'q"
    and pop :: "'q \<Rightarrow> 'a option \<times> 'q"
  assumes items_push: "items (push x q) = items q @ [x]"
    and pop_empty: "items q = [] \<Longrightarrow> fst (pop q) = None \<and> items (snd (pop q)) = []"
    and pop_next: "items q = x # xs \<Longrightarrow> fst (pop q) = Some x \<and> items (snd (pop q)) = xs"
begin

fun pops :: "nat \<Rightarrow> 'q \<Rightarrow> 'a option list \<times> 'q" where
  "pops 0 q = ([], q)"
| "pops (Suc n) q = (let (x, q') = pop q; (xs, q'') = pops n q' in (x # xs, q''))"

lemma items_fold_push: "items (fold push xs q) = items q @ xs"
  by (induction xs arbitrary: q) (simp_all add: items_push)

lemma pops_in_order:
  "n \<le> length (items q) \<Longrightarrow>
    fst (pops n q) = map Some (take n (items q)) \<and> items (snd (pops n q)) = drop n (items q)"
proof (induction n arbitrary: q)
  case 0
  then show ?case by simp
next
  case (Suc n)
  then obtain x xs where "items q = x # xs" by (cases "items q") auto
  with pop_next [OF this] Suc.prems Suc.IH [of "snd (pop q)"] show ?case
    by (simp add: split_beta Let_def)
qed

lemma pops_push_sequence:
  assumes "items q = []"
  shows "fst (pops (length xs) (fold push xs q)) = map Some xs"
    and "items (snd (pops (length xs) (fold push xs q))) = []"
  using pops_in_order [of "length xs" "fold push xs q"] assms by (simp_all add: items_fold_push)

lemma pop_none_iff: "fst (pop q) = None \<longleftrightarrow> items q = []"
  by (cases "items q") (auto dest: pop_empty pop_next)

end

end
