(* ===== verification/Virtual_Device.thy ===== *)
theory Virtual_Device
  imports Fifo_Interface
begin

text \<open>
  \<open>src/src/device/virtual_device.rs\<close>: the in-memory device the engine is polled over. \<open>smoltcp\<close> reaches
  the device only through its \<open>phy::Device\<close> implementation, that is through \<open>receive\<close> (which pops the
  oldest ingress packet and hands out a transmit token as well) and \<open>transmit\<close>, and through the
  tokens' \<open>consume\<close>. The relation \<open>device_run\<close> is what a client restricted to these calls can do to the
  device; the lemmas on it hold for every poll of the engine.
\<close>

record virtual_device =
  dev_mtu :: usize
  ingress :: "bytes list"
  egress :: "bytes list"

definition virtual_device_new :: "usize \<Rightarrow> virtual_device" where
  "virtual_device_new mtu = \<lparr>dev_mtu = mtu, ingress = [], egress = []\<rparr>"

definition push_ingress :: "bytes \<Rightarrow> virtual_device \<Rightarrow> virtual_device" where
  "push_ingress packet d = d\<lparr>ingress := ingress d @ [packet]\<rparr>"

text \<open>
  \<open>receive\<close> returns the packet inside the receive token; the transmit token is a reference to the
  device itself and carries no data.
\<close>

definition receive :: "virtual_device \<Rightarrow> bytes option \<times> virtual_device" where
  "receive d = (case ingress d of
      [] \<Rightarrow> (None, d)
    | pkt # rest \<Rightarrow> (Some pkt, d\<lparr>ingress := rest\<rparr>))"

definition rx_consume :: "(bytes \<Rightarrow> 'r) \<Rightarrow> bytes \<Rightarrow> 'r" where
  "rx_consume f pkt = f pkt"

text \<open>
  The closure \<open>f\<close> is given a zeroed buffer of the requested length and returns its result and the
  buffer it leaves; a mutable slice cannot change its length.
\<close>

definition tx_consume ::
    "nat \<Rightarrow> (bytes \<Rightarrow> 'r \<times> bytes) \<Rightarrow> virtual_device \<Rightarrow> 'r \<times> virtual_device" where
  "tx_consume len f d =
     (let (result, buf) = f (replicate len 0)
      in (result, d\<lparr>egress := egress d @ [buf]\<rparr>))"

datatype medium = MediumIp | MediumEthernet

record device_capabilities =
  caps_medium :: medium
  caps_max_transmission_unit :: usize
  caps_max_burst_size :: "usize option"

definition capabilities :: "virtual_device \<Rightarrow> device_capabilities" where
  "capabilities d =
     \<lparr>caps_medium = MediumIp, caps_max_transmission_unit = dev_mtu d, caps_max_burst_size = None\<rparr>"

section \<open>The ingress queue is a queue\<close>

interpretation ingress_queue: fifo ingress push_ingress receive
  by unfold_locales (auto simp: push_ingress_def receive_def)

section \<open>What a client of the device interface can do\<close>

inductive device_call :: "virtual_device \<Rightarrow> virtual_device \<Rightarrow> bool" where
  call_receive: "device_call d (snd (receive d))"
| call_transmit: "(\<And>b. length (snd (f b)) = length b) \<Longrightarrow>
    device_call d (snd (tx_consume len (f :: bytes \<Rightarrow> unit \<times> bytes) d))"

definition device_run :: "virtual_device \<Rightarrow> virtual_device \<Rightarrow> bool" where
  "device_run = device_call\<^sup>*\<^sup>*"

lemma device_call_effect:
  assumes "device_call d d'"
  shows "dev_mtu d' = dev_mtu d \<and> (\<exists>n. ingress d' = drop n (ingress d)) \<and>
    (\<exists>out. egress d' = egress d @ out)"
  using assms
proof cases
  case call_receive
  then have "ingress d' = drop 1 (ingress d)" "egress d' = egress d" "dev_mtu d' = dev_mtu d"
    by (auto simp: receive_def split: list.splits)
  then show ?thesis by auto
next
  case (call_transmit f len)
  then show ?thesis
    by (auto simp: tx_consume_def split_beta intro!: exI [of _ 0])
qed

lemma device_run_effect:
  assumes "device_run d d'"
  shows "dev_mtu d' = dev_mtu d \<and> (\<exists>n. ingress d' = drop n (ingress d)) \<and>
    (\<exists>out. egress d' = egress d @ out)"
  using assms unfolding device_run_def
proof (induction rule: rtranclp_induct)
  case base
  have "ingress d = drop 0 (ingress d)" by simp
  then show ?case by (metis append_Nil2)
next
  case (step d' d'')
  from device_call_effect [OF step.hyps(2)] step.IH show ?case
    by (metis append.assoc drop_drop)
qed

lemma device_run_refl [intro]: "device_run d d"
  by (simp add: device_run_def)

lemma device_run_step: "device_run d d' \<Longrightarrow> device_call d' d'' \<Longrightarrow> device_run d d''"
  unfolding device_run_def by (rule rtranclp.rtrancl_into_rtrancl)

text \<open>
  Taking every ingress packet and transmitting any list of frames is such a run.
\<close>

lemma device_run_drain: "device_run d (d\<lparr>ingress := [], egress := egress d @ out\<rparr>)"
proof -
  have recv: "device_run d (d\<lparr>ingress := drop n (ingress d)\<rparr>)" for n
  proof (induction n)
    case (Suc n)
    have "snd (receive (d\<lparr>ingress := drop n (ingress d)\<rparr>)) = d\<lparr>ingress := drop (Suc n) (ingress d)\<rparr>"
      by (cases "drop n (ingress d)")
        (simp_all add: receive_def drop_Suc tl_drop [symmetric])
    with Suc show ?case by (metis device_run_step call_receive)
  qed auto
  have send: "device_run d' (d'\<lparr>egress := egress d' @ out\<rparr>)" for d'
  proof (induction out rule: rev_induct)
    case (snoc b bs)
    let ?d = "d'\<lparr>egress := egress d' @ bs\<rparr>"
    let ?f = "\<lambda>z. ((), if length z = length b then b else z)"
    have "device_call ?d (snd (tx_consume (length b) ?f ?d))"
      by (rule call_transmit) simp
    then show ?case using snoc by (auto simp: tx_consume_def elim: device_run_step)
  qed auto
  show ?thesis
    using recv [of "length (ingress d)"] send [of "d\<lparr>ingress := []\<rparr>"]
    by (simp add: device_run_def)
qed

text \<open>
  The device is a queue towards the engine: packets injected into a new device are received in the
  order of injection, each once, and nothing is left.
\<close>

lemma device_packets_in_order:
  "fst (ingress_queue.pops (length pkts) (fold push_ingress pkts (virtual_device_new mtu))) = map Some pkts \<and>
   ingress (snd (ingress_queue.pops (length pkts) (fold push_ingress pkts (virtual_device_new mtu)))) = []"
  using ingress_queue.pops_push_sequence [of "virtual_device_new mtu"] by (simp add: virtual_device_new_def)

end
