(* ===== verification/Smoltcp_Interface.thy ===== *)
theory Smoltcp_Interface
  imports Net_Types Virtual_Device
begin

text \<open>
  The engine below the netstack, \<open>smoltcp\<close>, is a dependency of the repository and not part of it, so
  it is a parameter of the model: two records of operations with the signatures the sources call.
  \<open>wire\<close> holds the packet parsers; \<open>smoltcp\<close> holds the TCP and UDP sockets, the socket set and the
  interface. The representations of an interface, of a socket set and of the two kinds of socket are
  the type variables \<open>'i\<close>, \<open>'s\<close>, \<open>'t\<close>, \<open>'u\<close>: nothing in the model can look inside them. Methods that
  mutate through \<open>&mut\<close> return the new value.

  What the netstack relies on is stated as named predicates on the record, from \<open>smoltcp\<close>'s
  documentation: handles behave like map keys (\<open>socket_set_laws\<close>), a poll keeps every socket in its
  place and reaches the device only through the device interface (\<open>poll_laws\<close>), a fresh UDP socket
  binds to any endpoint with a port (\<open>udp_bind_law\<close>), receiving a datagram removes it from the receive
  buffer (\<open>udp_recv_progress\<close>), and the parsers reject a missing destination port (\<open>wire_laws\<close>). The
  theorems that need one of them say so.
\<close>

section \<open>Packet parsers\<close>

datatype ip_protocol = IpProtoTcp | IpProtoUdp | IpProtoOther u8

record 'a ip_repr =
  ipr_src_addr :: 'a
  ipr_dst_addr :: 'a
  ipr_next_header :: ip_protocol

datatype tcp_control = CtlNone | CtlPsh | CtlSyn | CtlFin | CtlRst

record tcp_repr =
  tr_src_port :: u16
  tr_dst_port :: u16
  tr_control :: tcp_control
  tr_ack_number :: "32 word option"

record udp_repr =
  ur_src_port :: u16
  ur_dst_port :: u16

text \<open>
  A packet view of \<open>smoltcp::wire\<close> wraps the buffer it is created over, so it is represented by the
  buffer; \<open>new_checked\<close> is the check that admits the buffer. All parsers are called with the checksum
  capabilities \<open>ignored()\<close>, which is therefore not an argument.
\<close>

record wire =
  ipv4_new_checked :: "bytes \<Rightarrow> bool"
  ipv4_repr_parse :: "bytes \<Rightarrow> 32 word ip_repr option"
  ipv4_payload :: "bytes \<Rightarrow> bytes"
  ipv6_new_checked :: "bytes \<Rightarrow> bool"
  ipv6_repr_parse :: "bytes \<Rightarrow> 128 word ip_repr option"
  ipv6_payload :: "bytes \<Rightarrow> bytes"
  tcp_new_checked :: "bytes \<Rightarrow> bool"
  tcp_repr_parse :: "bytes \<Rightarrow> ip_address \<Rightarrow> ip_address \<Rightarrow> tcp_repr option"
  udp_new_checked :: "bytes \<Rightarrow> bool"
  udp_repr_parse :: "bytes \<Rightarrow> ip_address \<Rightarrow> ip_address \<Rightarrow> udp_repr option"

text \<open>A representation with destination port 0 is not parsed (the port cannot be omitted).\<close>

definition wire_laws :: "wire \<Rightarrow> bool" where
  "wire_laws W \<longleftrightarrow>
     (\<forall>p s d r. tcp_repr_parse W p s d = Some r \<longrightarrow> tr_dst_port r \<noteq> 0) \<and>
     (\<forall>p s d r. udp_repr_parse W p s d = Some r \<longrightarrow> ur_dst_port r \<noteq> 0)"

section \<open>Sockets, socket sets and interfaces\<close>

type_synonym socket_handle = nat
type_synonym instant = int
type_synonym duration = nat
type_synonym std_duration = nat
type_synonym waker = nat

datatype ('t, 'u) socket = TcpSocket 't | UdpSocket 'u

datatype socket_kind = TcpKind | UdpKind

fun kind_of :: "('t, 'u) socket \<Rightarrow> socket_kind" where
  "kind_of (TcpSocket t) = TcpKind"
| "kind_of (UdpSocket u) = UdpKind"

datatype tcp_fsm =
    FsmClosed | FsmListen | FsmSynSent | FsmSynReceived | FsmEstablished | FsmFinWait1
  | FsmFinWait2 | FsmCloseWait | FsmClosing | FsmLastAck | FsmTimeWait

datatype tcp_listen_error = ListenInvalidState | ListenUnaddressable
datatype tcp_recv_error = RecvInvalidState | RecvFinished
datatype tcp_send_error = SendInvalidState
datatype udp_bind_error = BindInvalidState | BindUnaddressable
datatype udp_recv_error = RecvExhausted | RecvTruncated
datatype udp_send_error = SendUnaddressable | SendBufferFull

record ip_cidr =
  cidr_addr :: ip_address
  cidr_prefix_len :: u8

record ('i, 's, 't, 'u) smoltcp =
  instant_sub :: "instant \<Rightarrow> instant \<Rightarrow> duration"
  duration_from_std :: "std_duration \<Rightarrow> duration"
  duration_into_std :: "duration \<Rightarrow> std_duration"
  tcp_new :: "usize \<Rightarrow> usize \<Rightarrow> 't"
  tcp_listen :: "'t \<Rightarrow> ip_listen_endpoint \<Rightarrow> tcp_listen_error + 't"
  tcp_fsm_of :: "'t \<Rightarrow> tcp_fsm"
  tcp_is_open :: "'t \<Rightarrow> bool"
  tcp_close :: "'t \<Rightarrow> 't"
  tcp_recv_slice :: "'t \<Rightarrow> nat \<Rightarrow> (tcp_recv_error + bytes) \<times> 't"
  tcp_send_slice :: "'t \<Rightarrow> bytes \<Rightarrow> (tcp_send_error + nat) \<times> 't"
  tcp_register_recv_waker :: "'t \<Rightarrow> waker \<Rightarrow> 't"
  tcp_register_send_waker :: "'t \<Rightarrow> waker \<Rightarrow> 't"
  udp_new :: "usize \<times> usize \<Rightarrow> usize \<times> usize \<Rightarrow> 'u"
  udp_bind :: "'u \<Rightarrow> ip_endpoint \<Rightarrow> udp_bind_error + 'u"
  udp_recv :: "'u \<Rightarrow> (udp_recv_error + bytes \<times> ip_endpoint) \<times> 'u"
  udp_send_slice :: "'u \<Rightarrow> bytes \<Rightarrow> ip_endpoint \<Rightarrow> (udp_send_error + unit) \<times> 'u"
  ss_new :: 's
  ss_add :: "'s \<Rightarrow> ('t, 'u) socket \<Rightarrow> socket_handle \<times> 's"
  ss_get :: "'s \<Rightarrow> socket_handle \<Rightarrow> ('t, 'u) socket option"
  ss_put :: "'s \<Rightarrow> socket_handle \<Rightarrow> ('t, 'u) socket \<Rightarrow> 's"
  ss_remove :: "'s \<Rightarrow> socket_handle \<Rightarrow> 's"
  cidr_new :: "ip_address \<Rightarrow> u8 \<Rightarrow> ip_cidr option"
  iface_max_addr_count :: nat
  iface_new :: "64 word \<Rightarrow> virtual_device \<Rightarrow> instant \<Rightarrow> 'i \<times> virtual_device"
  iface_set_any_ip :: "'i \<Rightarrow> bool \<Rightarrow> 'i"
  iface_ip_addrs :: "'i \<Rightarrow> ip_cidr list"
  iface_set_ip_addrs :: "'i \<Rightarrow> ip_cidr list \<Rightarrow> 'i option"
  iface_add_default_ipv4_route :: "'i \<Rightarrow> 32 word \<Rightarrow> 'i"
  iface_add_default_ipv6_route :: "'i \<Rightarrow> 128 word \<Rightarrow> 'i"
  iface_poll :: "instant \<Rightarrow> 'i \<Rightarrow> virtual_device \<Rightarrow> 's \<Rightarrow> 'i \<times> virtual_device \<times> 's"
  iface_poll_delay :: "instant \<Rightarrow> 'i \<Rightarrow> 's \<Rightarrow> 'i \<times> duration option"

text \<open>
  \<open>ss_get\<close> is \<open>None\<close> where \<open>SocketSet::get_mut\<close> and \<open>SocketSet::remove\<close> panic: the handle does not belong
  to the set. \<open>get_mut::<tcp::Socket>\<close> also panics when the socket is of another kind.
\<close>

definition get_mut_tcp :: "('i, 's, 't, 'u, 'x) smoltcp_scheme \<Rightarrow> 's \<Rightarrow> socket_handle \<Rightarrow> 't option" where
  "get_mut_tcp S ss h = (case ss_get S ss h of Some (TcpSocket t) \<Rightarrow> Some t | _ \<Rightarrow> None)"

definition get_mut_udp :: "('i, 's, 't, 'u, 'x) smoltcp_scheme \<Rightarrow> 's \<Rightarrow> socket_handle \<Rightarrow> 'u option" where
  "get_mut_udp S ss h = (case ss_get S ss h of Some (UdpSocket u) \<Rightarrow> Some u | _ \<Rightarrow> None)"

definition socket_set_laws :: "('i, 's, 't, 'u, 'x) smoltcp_scheme \<Rightarrow> bool" where
  "socket_set_laws S \<longleftrightarrow>
     (\<forall>h. ss_get S (ss_new S) h = None) \<and>
     (\<forall>ss s. ss_get S ss (fst (ss_add S ss s)) = None) \<and>
     (\<forall>ss s h. ss_get S (snd (ss_add S ss s)) h =
        (if h = fst (ss_add S ss s) then Some s else ss_get S ss h)) \<and>
     (\<forall>ss s h h'. ss_get S ss h \<noteq> None \<longrightarrow>
        ss_get S (ss_put S ss h s) h' = (if h' = h then Some s else ss_get S ss h')) \<and>
     (\<forall>ss h h'. ss_get S ss h \<noteq> None \<longrightarrow>
        ss_get S (ss_remove S ss h) h' = (if h' = h then None else ss_get S ss h'))"

definition poll_laws :: "('i, 's, 't, 'u, 'x) smoltcp_scheme \<Rightarrow> bool" where
  "poll_laws S \<longleftrightarrow>
     (\<forall>now i d ss i' d' ss'. iface_poll S now i d ss = (i', d', ss') \<longrightarrow>
        device_run d d' \<and>
        (\<forall>h. map_option kind_of (ss_get S ss' h) = map_option kind_of (ss_get S ss h)))"

definition udp_bind_law :: "('i, 's, 't, 'u, 'x) smoltcp_scheme \<Rightarrow> bool" where
  "udp_bind_law S \<longleftrightarrow>
     (\<forall>rx tx ep. ep_port ep \<noteq> 0 \<longrightarrow> (\<exists>u. udp_bind S (udp_new S rx tx) ep = Inr u))"

definition udp_recv_progress :: "('i, 's, 't, 'u, 'x) smoltcp_scheme \<Rightarrow> ('u \<Rightarrow> nat) \<Rightarrow> bool" where
  "udp_recv_progress S queued \<longleftrightarrow>
     (\<forall>u r u'. udp_recv S u = (r, u') \<longrightarrow> r \<noteq> Inl RecvExhausted \<longrightarrow> queued u' < queued u)"

lemma socket_set_lawsD:
  assumes "socket_set_laws S"
  shows "ss_get S (ss_new S) h = None"
    and "ss_get S ss (fst (ss_add S ss s)) = None"
    and "ss_get S (snd (ss_add S ss s)) h = (if h = fst (ss_add S ss s) then Some s else ss_get S ss h)"
    and "ss_get S ss h \<noteq> None \<Longrightarrow>
      ss_get S (ss_put S ss h s) h' = (if h' = h then Some s else ss_get S ss h')"
    and "ss_get S ss h \<noteq> None \<Longrightarrow>
      ss_get S (ss_remove S ss h) h' = (if h' = h then None else ss_get S ss h')"
  using assms unfolding socket_set_laws_def by blast+

lemma poll_lawsD:
  assumes "poll_laws S" and "iface_poll S now i d ss = (i', d', ss')"
  shows "device_run d d'"
    and "map_option kind_of (ss_get S ss' h) = map_option kind_of (ss_get S ss h)"
  using assms unfolding poll_laws_def by blast+

lemma get_mut_tcp_Some: "get_mut_tcp S ss h = Some t \<longleftrightarrow> ss_get S ss h = Some (TcpSocket t)"
  by (auto simp: get_mut_tcp_def split: option.splits socket.splits)

lemma get_mut_udp_Some: "get_mut_udp S ss h = Some u \<longleftrightarrow> ss_get S ss h = Some (UdpSocket u)"
  by (auto simp: get_mut_udp_def split: option.splits socket.splits)

lemma kind_TcpKind: "map_option kind_of x = Some TcpKind \<longleftrightarrow> (\<exists>t. x = Some (TcpSocket t))"
  by (cases x) (auto elim: kind_of.elims)

lemma kind_UdpKind: "map_option kind_of x = Some UdpKind \<longleftrightarrow> (\<exists>u. x = Some (UdpSocket u))"
  by (cases x) (auto elim: kind_of.elims)

end
