(* ===== verification/Session_Manager.thy ===== *)
theory Session_Manager
  imports Smoltcp_Interface Fifo_Interface
begin

text \<open>
  \<open>src/src/session/manager.rs\<close>: the datagram queue of a UDP session, the bookkeeping entries, and the
  registry with its reference-counted UDP sockets.

  A \<open>UdpQueue\<close> is shared through an \<open>Arc\<close> by the registry entry and by the session handed to the
  application. Both hold its address, an index into the store of queues (\<open>sh_queues\<close> in
  \<open>Netstack_Core\<close>), so that closing the queue on one side is seen on the other. A \<open>Notify\<close> is
  represented by the number of \<open>notify_waiters\<close> calls made on it.
\<close>

section \<open>The datagram queue\<close>

record udp_queue =
  q_inner :: "bytes list"
  q_notify :: nat
  q_closed :: bool

definition udp_queue_new :: udp_queue where
  "udp_queue_new = \<lparr>q_inner = [], q_notify = 0, q_closed = False\<rparr>"

definition udp_queue_push :: "bytes \<Rightarrow> udp_queue \<Rightarrow> udp_queue" where
  "udp_queue_push data q = q\<lparr>q_inner := q_inner q @ [data], q_notify := Suc (q_notify q)\<rparr>"

definition udp_queue_pop :: "udp_queue \<Rightarrow> bytes option \<times> udp_queue" where
  "udp_queue_pop q = (case q_inner q of
      [] \<Rightarrow> (None, q)
    | data # rest \<Rightarrow> (Some data, q\<lparr>q_inner := rest\<rparr>))"

definition mark_closed :: "udp_queue \<Rightarrow> udp_queue" where
  "mark_closed q = q\<lparr>q_closed := True, q_notify := Suc (q_notify q)\<rparr>"

definition is_closed :: "udp_queue \<Rightarrow> bool" where
  "is_closed q = q_closed q"

interpretation datagram_queue: fifo q_inner udp_queue_push udp_queue_pop
  by unfold_locales (auto simp: udp_queue_push_def udp_queue_pop_def)

lemma is_closed_simps [simp]:
  "is_closed (udp_queue_push b q) = is_closed q"
  "is_closed (snd (udp_queue_pop q)) = is_closed q"
  "is_closed (mark_closed q)"
  "q_inner (mark_closed q) = q_inner q"
  "\<not> is_closed udp_queue_new"
  by (auto simp: is_closed_def udp_queue_push_def udp_queue_pop_def mark_closed_def
      udp_queue_new_def split: list.splits)

section \<open>Entries and the registry\<close>

type_synonym queue_id = nat

datatype tcp_state = TcpPending | TcpEstablished | TcpClosed

record tcp_entry =
  te_handle :: socket_handle
  te_state :: tcp_state
  te_orphaned :: bool

record udp_entry =
  ue_socket :: socket_handle
  ue_queue :: queue_id
  ue_last_activity :: instant

type_synonym dst_key = "interface_id \<times> ip_endpoint"

record session_manager =
  mgr_tcp :: "(session_key, tcp_entry) hash_map"
  mgr_udp :: "(session_key, udp_entry) hash_map"
  udp_dst_sockets :: "(dst_key, socket_handle \<times> usize) hash_map"

definition session_manager_default :: session_manager where
  "session_manager_default = \<lparr>mgr_tcp = [], mgr_udp = [], udp_dst_sockets = []\<rparr>"

definition get_tcp :: "session_manager \<Rightarrow> session_key \<Rightarrow> tcp_entry option" where
  "get_tcp m key = hm_get (mgr_tcp m) key"

definition get_udp :: "session_manager \<Rightarrow> session_key \<Rightarrow> udp_entry option" where
  "get_udp m key = hm_get (mgr_udp m) key"

text \<open>
  The closure \<open>create\<close> of \<open>udp_socket_for\<close> captures the interface slot; the captured state is the
  type variable \<open>'x\<close>.
\<close>

definition udp_socket_for ::
    "interface_id \<Rightarrow> ip_endpoint \<Rightarrow> ('x \<Rightarrow> socket_handle option \<times> 'x) \<Rightarrow>
     session_manager \<Rightarrow> 'x \<Rightarrow> socket_handle option \<times> session_manager \<times> 'x" where
  "udp_socket_for interface dst create m x =
     (let key = (interface, dst) in
      case hm_get (udp_dst_sockets m) key of
        Some (handle, _) \<Rightarrow> (Some handle, m, x)
      | None \<Rightarrow>
          (case create x of
             (None, x') \<Rightarrow> (None, m, x')
           | (Some handle, x') \<Rightarrow>
               (Some handle,
                m\<lparr>udp_dst_sockets := hm_insert key (handle, 0) (udp_dst_sockets m)\<rparr>, x')))"

definition udp_socket_retain :: "dst_key \<Rightarrow> session_manager \<Rightarrow> session_manager" where
  "udp_socket_retain key m =
     (case hm_get (udp_dst_sockets m) key of
        Some (handle, cnt) \<Rightarrow>
          m\<lparr>udp_dst_sockets := hm_insert key (handle, cnt + 1) (udp_dst_sockets m)\<rparr>
      | None \<Rightarrow> m)"

definition udp_socket_release :: "dst_key \<Rightarrow> session_manager \<Rightarrow> bool \<times> session_manager" where
  "udp_socket_release key m =
     (case hm_get (udp_dst_sockets m) key of
        Some (handle, cnt) \<Rightarrow>
          (let cnt' = saturating_sub cnt 1 in
           if cnt' = 0
           then (True, m\<lparr>udp_dst_sockets := hm_remove key (udp_dst_sockets m)\<rparr>)
           else (False, m\<lparr>udp_dst_sockets := hm_insert key (handle, cnt') (udp_dst_sockets m)\<rparr>))
      | None \<Rightarrow> (False, m))"

section \<open>The reference-count contract\<close>

text \<open>
  What the runner and the UDP sessions rely on: \<open>release\<close> reports the removal of the shared socket
  exactly when the last reference goes. \<open>cap\<close> is where the counter would wrap.
\<close>

locale refcount =
  fixes refs :: "'m \<Rightarrow> 'k \<Rightarrow> nat option"
    and retain :: "'k \<Rightarrow> 'm \<Rightarrow> 'm"
    and release :: "'k \<Rightarrow> 'm \<Rightarrow> bool \<times> 'm"
    and cap :: nat
  assumes retain_present: "refs m k = Some n \<Longrightarrow> Suc n < cap \<Longrightarrow> refs (retain k m) = (refs m)(k \<mapsto> Suc n)"
    and release_last: "refs m k = Some n \<Longrightarrow> n \<le> 1 \<Longrightarrow>
      fst (release k m) \<and> refs (snd (release k m)) = (refs m)(k := None)"
    and release_more: "refs m k = Some n \<Longrightarrow> 1 < n \<Longrightarrow>
      \<not> fst (release k m) \<and> refs (snd (release k m)) = (refs m)(k \<mapsto> n - 1)"
begin

fun releases :: "nat \<Rightarrow> 'k \<Rightarrow> 'm \<Rightarrow> bool list \<times> 'm" where
  "releases 0 k m = ([], m)"
| "releases (Suc n) k m =
     (let (b, m') = release k m; (bs, m'') = releases n k m' in (b # bs, m''))"

lemma refs_retains:
  "refs m k = Some c \<Longrightarrow> c + n < cap \<Longrightarrow> refs ((retain k ^^ n) m) k = Some (c + n)"
proof (induction n)
  case 0
  then show ?case by simp
next
  case (Suc n)
  then show ?case using retain_present [of "(retain k ^^ n) m" k "c + n"] by simp
qed

lemma releases_last:
  "refs m k = Some (Suc n) \<Longrightarrow>
    fst (releases (Suc n) k m) = replicate n False @ [True] \<and>
    refs (snd (releases (Suc n) k m)) k = None"
proof (induction n arbitrary: m)
  case 0
  then show ?case using release_last [of m k 1] by (simp add: split_beta Let_def)
next
  case (Suc n)
  have "\<not> fst (release k m)" "refs (snd (release k m)) k = Some (Suc n)"
    using release_more [of m k "Suc (Suc n)"] Suc.prems by auto
  with Suc.IH [OF this(2)] show ?case by (simp add: split_beta Let_def)
qed

lemma retain_release_balanced:
  assumes "refs m k = Some 0" and "Suc n < cap"
  shows "fst (releases (Suc n) k ((retain k ^^ Suc n) m)) = replicate n False @ [True]"
    and "refs (snd (releases (Suc n) k ((retain k ^^ Suc n) m))) k = None"
  using releases_last [of "(retain k ^^ Suc n) m" k n] refs_retains [of m k 0 "Suc n"] assms by auto

end

definition dst_refs :: "session_manager \<Rightarrow> dst_key \<Rightarrow> nat option" where
  "dst_refs m key = map_option (\<lambda>(handle, cnt). unat cnt) (hm_get (udp_dst_sockets m) key)"

interpretation dst_socket: refcount dst_refs udp_socket_retain udp_socket_release "2 ^ 64"
proof
  fix m k n
  assume "dst_refs m k = Some n" "Suc n < 2 ^ 64"
  moreover from this have "unat (of_nat n + 1 :: usize) = Suc n"
    by (simp add: unat_word_ariths unat_of_nat)
  ultimately show "dst_refs (udp_socket_retain k m) = (dst_refs m)(k \<mapsto> Suc n)"
    by (auto simp: dst_refs_def udp_socket_retain_def fun_eq_iff)
next
  fix m k n
  assume "dst_refs m k = Some n" "n \<le> 1"
  then show "fst (udp_socket_release k m) \<and>
      dst_refs (snd (udp_socket_release k m)) = (dst_refs m)(k := None)"
    by (auto simp: dst_refs_def udp_socket_release_def fun_eq_iff Let_def word_unat_eq_iff)
next
  fix m k n
  assume refs: "dst_refs m k = Some n" "1 < n"
  then obtain handle cnt where *: "hm_get (udp_dst_sockets m) k = Some (handle, cnt)" "unat cnt = n"
    by (auto simp: dst_refs_def)
  with refs(2) have "saturating_sub cnt 1 \<noteq> 0" by (simp add: word_unat_eq_iff)
  with * show "\<not> fst (udp_socket_release k m) \<and>
      dst_refs (snd (udp_socket_release k m)) = (dst_refs m)(k \<mapsto> n - 1)"
    by (simp add: dst_refs_def udp_socket_release_def fun_eq_iff Let_def)
qed

text \<open>
  C35. Retaining and releasing balance: after a socket was created and retained by some sessions, every
  release but the last says that the socket is still in use, and the last one says that it is to be
  removed, and forgets it.
\<close>

theorem udp_socket_balanced:
  assumes "hm_get (udp_dst_sockets m) key = Some (h, 0)" and "Suc n < 2 ^ 64"
  shows "fst (dst_socket.releases (Suc n) key ((udp_socket_retain key ^^ Suc n) m)) = replicate n False @ [True] \<and>
    hm_get (udp_dst_sockets (snd (dst_socket.releases (Suc n) key ((udp_socket_retain key ^^ Suc n) m)))) key = None"
proof -
  have "dst_refs m key = Some 0" using assms(1) by (simp add: dst_refs_def)
  from dst_socket.retain_release_balanced [OF this assms(2)] show ?thesis by (simp add: dst_refs_def)
qed

theorem udp_socket_balanced_witness:
  "fst (dst_socket.releases 3 (InterfaceId 1, \<lparr>ep_addr = Ipv4 2, ep_port = 53\<rparr>)
    ((udp_socket_retain (InterfaceId 1, \<lparr>ep_addr = Ipv4 2, ep_port = 53\<rparr>) ^^ 3)
      \<lparr>mgr_tcp = [], mgr_udp = [], udp_dst_sockets = [((InterfaceId 1, \<lparr>ep_addr = Ipv4 2, ep_port = 53\<rparr>), 7, 0)]\<rparr>)) =
    [False, False, True]"
proof -
  let ?key = "(InterfaceId 1, \<lparr>ep_addr = Ipv4 2, ep_port = 53\<rparr>) :: dst_key"
  let ?m = "\<lparr>mgr_tcp = [], mgr_udp = [], udp_dst_sockets = [(?key, 7, 0)]\<rparr>"
  have "hm_get (udp_dst_sockets ?m) ?key = Some (7, 0)" and "Suc 2 < (2 :: nat) ^ 64" by simp_all
  from udp_socket_balanced [OF this]
  have "fst (dst_socket.releases 3 ?key ((udp_socket_retain ?key ^^ 3) ?m)) = replicate 2 False @ [True]" by simp
  then show ?thesis by (simp add: numeral_2_eq_2)
qed

end
