(* ===== verification/Log_Level.thy ===== *)
theory Log_Level
  imports Netstack_Prelude
begin

text \<open>
  The log gate of \<open>src/src/log.rs\<close>: the levels, their ordinals and the question whether an event of
  a level may pass. The derived \<open>Ord\<close> of the Rust enum (declaration order) is the instance of
  \<open>linorder\<close>.
\<close>

datatype log_level = LogNone | LogError | LogWarning | LogInfo | LogDebug

fun ordinal :: "log_level \<Rightarrow> u8" where
  "ordinal LogNone = 0"
| "ordinal LogError = 1"
| "ordinal LogWarning = 2"
| "ordinal LogInfo = 3"
| "ordinal LogDebug = 4"

definition log_includes :: "log_level \<Rightarrow> log_level \<Rightarrow> bool" where
  "log_includes self lvl \<longleftrightarrow> ordinal lvl \<le> ordinal self"

definition log_enabled :: "log_level \<Rightarrow> log_level \<Rightarrow> bool" where
  "log_enabled configured lvl \<longleftrightarrow> log_includes configured lvl"

text \<open>The position of a level in the declaration of the enum, which is what \<open>derive(Ord)\<close> compares.\<close>

fun declared_at :: "log_level \<Rightarrow> nat" where
  "declared_at LogNone = 0"
| "declared_at LogError = 1"
| "declared_at LogWarning = 2"
| "declared_at LogInfo = 3"
| "declared_at LogDebug = 4"

lemma declared_at_inject [simp]: "declared_at a = declared_at b \<longleftrightarrow> a = b"
  by (cases a; cases b) simp_all

instantiation log_level :: linorder
begin

definition less_eq_log_level :: "log_level \<Rightarrow> log_level \<Rightarrow> bool" where
  "less_eq_log_level a b \<longleftrightarrow> declared_at a \<le> declared_at b"

definition less_log_level :: "log_level \<Rightarrow> log_level \<Rightarrow> bool" where
  "less_log_level a b \<longleftrightarrow> declared_at a < declared_at b"

instance
  by standard (auto simp: less_eq_log_level_def less_log_level_def)

end

lemma unat_ordinal: "unat (ordinal l) = declared_at l"
  by (cases l) simp_all

text \<open>
  The log gate is the order of the levels: an event passes exactly when its level is at most the
  configured one in the declaration order None, Error, Warning, Info, Debug.
\<close>

lemma log_enabled_order: "log_enabled configured lvl \<longleftrightarrow> lvl \<le> configured"
  by (simp add: log_enabled_def log_includes_def word_le_nat_alt unat_ordinal less_eq_log_level_def)

end
