(* ===== verification/Netstack_Core.thy ===== *)
theory Netstack_Core
  imports Session_Manager Log_Level
begin

text \<open>
  \<open>src/src/core.rs\<close> and the configuration record of \<open>src/src/builder.rs\<close>: the interface slots, the
  state \<open>Core\<close> behind the mutex with its buffer budget, and \<open>Shared\<close>, what the runner and the streams
  share. Every operation of the model runs with the mutex held, as in the sources, so operations are
  atomic and a run of the system is a sequence of them.
\<close>

section \<open>Configuration\<close>

record netstack_config =
  cfg_mtu :: usize
  cfg_tcp_buffer_size :: usize
  cfg_tcp_max_connections :: usize
  cfg_tcp_pool_size :: usize
  cfg_udp_session_timeout :: std_duration
  cfg_udp_max_sessions :: usize
  cfg_channel_capacity :: usize
  cfg_log_level :: log_level
  cfg_udp_buffer_packets :: usize
  cfg_udp_buffer_bytes :: usize
  cfg_max_buffer_bytes :: "usize option"
  cfg_mimalloc_purge_delay :: "std_duration option"
  cfg_mimalloc_large_os_pages :: bool
  cfg_mimalloc_allow_thp :: bool

text \<open>A \<open>std::time::Duration\<close> is a number of nanoseconds.\<close>

definition duration_from_secs :: "nat \<Rightarrow> std_duration" where
  "duration_from_secs s = s * 1000000000"

definition netstack_config_default :: netstack_config where
  "netstack_config_default =
     \<lparr>cfg_mtu = 1500,
      cfg_tcp_buffer_size = 16 * 1024,
      cfg_tcp_max_connections = 4096,
      cfg_tcp_pool_size = 4096,
      cfg_udp_session_timeout = duration_from_secs 30,
      cfg_udp_max_sessions = 4096,
      cfg_channel_capacity = 2048,
      cfg_log_level = LogInfo,
      cfg_udp_buffer_packets = 16,
      cfg_udp_buffer_bytes = 16 * 1024,
      cfg_max_buffer_bytes = None,
      cfg_mimalloc_purge_delay = None,
      cfg_mimalloc_large_os_pages = False,
      cfg_mimalloc_allow_thp = True\<rparr>"

section \<open>Interface slots\<close>

record ('i, 's, 't) interface_slot =
  slot_id :: interface_id
  iface :: 'i
  device :: virtual_device
  sockets :: 's
  tcp_pool :: "'t list"
  slot_tcp_pool_max :: usize
  slot_mtu :: usize
  slot_tcp_buffer_size :: usize

definition interface_slot_new ::
    "interface_id \<Rightarrow> 'i \<Rightarrow> virtual_device \<Rightarrow> 's \<Rightarrow> usize \<Rightarrow> usize \<Rightarrow> usize \<Rightarrow>
     ('i, 's, 't) interface_slot" where
  "interface_slot_new id' ifc dev socks pool_max mtu tcp_buffer_size =
     \<lparr>slot_id = id', iface = ifc, device = dev, sockets = socks, tcp_pool = [],
      slot_tcp_pool_max = pool_max, slot_mtu = mtu, slot_tcp_buffer_size = tcp_buffer_size\<rparr>"

section \<open>The core and its buffer budget\<close>

record ('i, 's, 't) core =
  slots :: "('i, 's, 't) interface_slot list"
  manager :: session_manager
  config :: netstack_config
  buffer_bytes :: usize

definition core_slot :: "('i, 's, 't) core \<Rightarrow> interface_id \<Rightarrow> ('i, 's, 't) interface_slot option" where
  "core_slot c id' = find (\<lambda>slot. slot_id slot = id') (slots c)"

text \<open>
  \<open>slot_mut\<close> hands out a reference to the slot that \<open>slot\<close> finds; \<open>put_slot\<close> is the write through it.
\<close>

primrec put_first ::
    "interface_id \<Rightarrow> ('i, 's, 't) interface_slot \<Rightarrow> ('i, 's, 't) interface_slot list \<Rightarrow>
     ('i, 's, 't) interface_slot list" where
  "put_first id' s [] = []"
| "put_first id' s (x # xs) = (if slot_id x = id' then s # xs else x # put_first id' s xs)"

definition put_slot ::
    "interface_id \<Rightarrow> ('i, 's, 't) interface_slot \<Rightarrow> ('i, 's, 't) core \<Rightarrow> ('i, 's, 't) core" where
  "put_slot id' s c = c\<lparr>slots := put_first id' s (slots c)\<rparr>"

definition reserve_buffer :: "usize \<Rightarrow> ('i, 's, 't) core \<Rightarrow> bool \<times> ('i, 's, 't) core" where
  "reserve_buffer n c =
     (case cfg_max_buffer_bytes (config c) of
        Some limit \<Rightarrow>
          if buffer_bytes c + n > limit then (False, c)
          else (True, c\<lparr>buffer_bytes := buffer_bytes c + n\<rparr>)
      | None \<Rightarrow> (True, c\<lparr>buffer_bytes := buffer_bytes c + n\<rparr>))"

definition release_buffer :: "usize \<Rightarrow> ('i, 's, 't) core \<Rightarrow> ('i, 's, 't) core" where
  "release_buffer n c = c\<lparr>buffer_bytes := saturating_sub (buffer_bytes c) n\<rparr>"

text \<open>
  A write to a socket through the reference that \<open>SocketSet::get_mut\<close> gave out for the slot \<open>s\<close>.
\<close>

definition put_socket ::
    "('i, 's, 't, 'u, 'x) smoltcp_scheme \<Rightarrow> ('i, 's, 't) interface_slot \<Rightarrow> socket_handle \<Rightarrow>
     ('t, 'u) socket \<Rightarrow> ('i, 's, 't) core \<Rightarrow> ('i, 's, 't) core" where
  "put_socket S s h sock c =
     put_slot (slot_id s) (s\<lparr>sockets := ss_put S (sockets s) h sock\<rparr>) c"

text \<open>The bytes charged for one shared UDP socket, over the metadata and the payload region.\<close>

definition udp_per_socket_bytes :: "netstack_config \<Rightarrow> usize \<Rightarrow> usize" where
  "udp_per_socket_bytes cfg mtu =
     max (cfg_udp_buffer_packets cfg) 1 * 64 + max (cfg_udp_buffer_bytes cfg) mtu"

section \<open>The shared state\<close>

record ('i, 's, 't) shared =
  sh_core :: "('i, 's, 't) core"
  sh_queues :: "udp_queue list"
  poll_notify :: nat
  poll_done :: nat

definition shared_new :: "('i, 's, 't) core \<Rightarrow> ('i, 's, 't) shared" where
  "shared_new c = \<lparr>sh_core = c, sh_queues = [], poll_notify = 0, poll_done = 0\<rparr>"

definition notify_poll :: "('i, 's, 't) shared \<Rightarrow> ('i, 's, 't) shared" where
  "notify_poll sh = sh\<lparr>poll_notify := Suc (poll_notify sh)\<rparr>"

definition notify_poll_done :: "('i, 's, 't) shared \<Rightarrow> ('i, 's, 't) shared" where
  "notify_poll_done sh = sh\<lparr>poll_done := Suc (poll_done sh)\<rparr>"

lemma notify_frame [frame_simps, simp]:
  "sh_core (notify_poll sh) = sh_core sh"
  "sh_queues (notify_poll sh) = sh_queues sh"
  "poll_done (notify_poll sh) = poll_done sh"
  "sh_core (notify_poll_done sh) = sh_core sh"
  "sh_queues (notify_poll_done sh) = sh_queues sh"
  "poll_notify (notify_poll_done sh) = poll_notify sh"
  by (simp_all add: notify_poll_def notify_poll_done_def)

section \<open>Slots by identifier\<close>

lemma core_slot_Some:
  assumes "core_slot c id' = Some s"
  shows "s \<in> set (slots c)" and "slot_id s = id'"
  using assms by (auto simp: core_slot_def find_Some_iff)

lemma core_slot_None: "core_slot c id' = None \<longleftrightarrow> id' \<notin> slot_id ` set (slots c)"
  by (auto simp: core_slot_def find_None_iff)

lemma core_slot_in:
  assumes "distinct (map slot_id (slots c))" and "s \<in> set (slots c)"
  shows "core_slot c (slot_id s) = Some s"
proof -
  obtain i where i: "i < length (slots c)" "slots c ! i = s" using assms(2) by (metis in_set_conv_nth)
  moreover have "slot_id (slots c ! j) \<noteq> slot_id s" if "j < i" for j
    using i assms(1) that by (auto simp: distinct_conv_nth)
  ultimately show ?thesis
    unfolding core_slot_def find_Some_iff by blast
qed

lemma map_slot_id_put_first: "slot_id s = id' \<Longrightarrow> map slot_id (put_first id' s xs) = map slot_id xs"
  by (induction xs) auto

lemma find_put_first:
  "slot_id s = id' \<Longrightarrow> find (\<lambda>x. slot_id x = j) (put_first id' s xs) =
    (if j = id' \<and> id' \<in> slot_id ` set xs then Some s else find (\<lambda>x. slot_id x = j) xs)"
  by (induction xs) auto

lemma core_slot_put_slot:
  "slot_id s = id' \<Longrightarrow> core_slot c id' \<noteq> None \<Longrightarrow>
    core_slot (put_slot id' s c) j = (if j = id' then Some s else core_slot c j)"
  by (auto simp: core_slot_def put_slot_def find_put_first find_None_iff image_iff)

lemma set_put_first: "set (put_first id' s xs) \<subseteq> insert s (set xs)"
  by (induction xs) auto

lemma put_first_nth:
  assumes "distinct (map slot_id xs)" and "i < length xs" and "slot_id (xs ! i) = id'"
  shows "xs[i := s] = put_first id' s xs"
  using assms
proof (induction xs arbitrary: i)
  case (Cons x xs)
  then show ?case
    by (cases i) (auto dest: nth_mem)
qed simp

lemma put_slot_frame [frame_simps, simp]:
  "manager (put_slot id' s c) = manager c"
  "config (put_slot id' s c) = config c"
  "buffer_bytes (put_slot id' s c) = buffer_bytes c"
  by (simp_all add: put_slot_def)

section \<open>The budget contract\<close>

text \<open>
  A budget with an optional limit: a reservation is refused without a charge when it would exceed the
  limit and charged exactly otherwise; a release gives back what was charged. \<open>cap\<close> is where the
  counter would wrap around.
\<close>

locale budget =
  fixes used :: "'c \<Rightarrow> nat"
    and limit :: "'c \<Rightarrow> nat option"
    and reserve :: "nat \<Rightarrow> 'c \<Rightarrow> bool \<times> 'c"
    and release :: "nat \<Rightarrow> 'c \<Rightarrow> 'c"
    and cap :: nat
  assumes reserve_refused: "used c + n < cap \<Longrightarrow> \<not> fst (reserve n c) \<Longrightarrow>
      snd (reserve n c) = c \<and> (\<exists>l. limit c = Some l \<and> l < used c + n)"
    and reserve_granted: "used c + n < cap \<Longrightarrow> fst (reserve n c) \<Longrightarrow>
      used (snd (reserve n c)) = used c + n \<and> (\<forall>l. limit c = Some l \<longrightarrow> used c + n \<le> l)"
    and limit_reserve: "limit (snd (reserve n c)) = limit c"
    and used_release: "n < cap \<Longrightarrow> used (release n c) = used c - n"
    and limit_release: "limit (release n c) = limit c"
begin

definition within_limit :: "'c \<Rightarrow> bool" where
  "within_limit c \<longleftrightarrow> (\<forall>l. limit c = Some l \<longrightarrow> used c \<le> l)"

lemma reserve_iff:
  "used c + n < cap \<Longrightarrow> fst (reserve n c) \<longleftrightarrow> (\<forall>l. limit c = Some l \<longrightarrow> used c + n \<le> l)"
  using reserve_refused [of c n] reserve_granted [of c n] by fastforce

lemma reserve_release_cancel:
  assumes "used c + n < cap" and "fst (reserve n c)"
  shows "used (release n (snd (reserve n c))) = used c"
  using reserve_granted [OF assms] used_release [of n] assms(1) by simp

lemma within_limit_reserve:
  "used c + n < cap \<Longrightarrow> within_limit c \<Longrightarrow> within_limit (snd (reserve n c))"
  using reserve_granted [of c n] reserve_refused [of c n]
  by (cases "fst (reserve n c)") (auto simp: within_limit_def limit_reserve)

lemma within_limit_release: "n < cap \<Longrightarrow> within_limit c \<Longrightarrow> within_limit (release n c)"
  by (auto simp: within_limit_def limit_release used_release)

end

interpretation core_budget: budget
  "\<lambda>c. unat (buffer_bytes c)"
  "\<lambda>c. map_option unat (cfg_max_buffer_bytes (config c))"
  "\<lambda>n. reserve_buffer (of_nat n)"
  "\<lambda>n. release_buffer (of_nat n)"
  "2 ^ 64"
proof
  fix n :: nat and c :: "('i, 's, 't) core"
  assume bound: "unat (buffer_bytes c) + n < 2 ^ 64"
  then have n: "unat (of_nat n :: usize) = n"
    by (simp add: unat_of_nat)
  with bound have sum: "unat (buffer_bytes c + of_nat n) = unat (buffer_bytes c) + n"
    using unat_usize_add [of "buffer_bytes c" "of_nat n"] by simp
  show "\<not> fst (reserve_buffer (of_nat n) c) \<Longrightarrow>
      snd (reserve_buffer (of_nat n) c) = c \<and>
      (\<exists>l. map_option unat (cfg_max_buffer_bytes (config c)) = Some l \<and> l < unat (buffer_bytes c) + n)"
    by (auto simp: reserve_buffer_def word_less_nat_alt sum split: option.splits if_splits)
  show "fst (reserve_buffer (of_nat n) c) \<Longrightarrow>
      unat (buffer_bytes (snd (reserve_buffer (of_nat n) c))) = unat (buffer_bytes c) + n \<and>
      (\<forall>l. map_option unat (cfg_max_buffer_bytes (config c)) = Some l \<longrightarrow>
        unat (buffer_bytes c) + n \<le> l)"
    by (auto simp: reserve_buffer_def word_less_nat_alt sum split: option.splits if_splits)
next
  fix n :: nat and c :: "('i, 's, 't) core"
  show "map_option unat (cfg_max_buffer_bytes (config (snd (reserve_buffer (of_nat n) c)))) =
      map_option unat (cfg_max_buffer_bytes (config c))"
    by (simp add: reserve_buffer_def split: option.split)
  show "map_option unat (cfg_max_buffer_bytes (config (release_buffer (of_nat n) c))) =
      map_option unat (cfg_max_buffer_bytes (config c))"
    by (simp add: release_buffer_def)
  show "n < 2 ^ 64 \<Longrightarrow> unat (buffer_bytes (release_buffer (of_nat n) c)) = unat (buffer_bytes c) - n"
    by (simp add: release_buffer_def unat_of_nat)
qed

lemma reserve_buffer_frame [frame_simps, simp]:
  "slots (snd (reserve_buffer n c)) = slots c"
  "manager (snd (reserve_buffer n c)) = manager c"
  "config (snd (reserve_buffer n c)) = config c"
  by (simp_all add: reserve_buffer_def split: option.split)

lemma release_buffer_frame [frame_simps, simp]:
  "slots (release_buffer n c) = slots c"
  "manager (release_buffer n c) = manager c"
  "config (release_buffer n c) = config c"
  by (simp_all add: release_buffer_def)

text \<open>
  A reservation that does not wrap the counter is granted exactly when it stays within the cap, and
  then a release of the same amount restores the counter; a refused one changes nothing.
\<close>

lemma reserve_then_release:
  assumes "unat (buffer_bytes c) + unat n < 2 ^ 64"
  shows "(fst (reserve_buffer n c) \<longleftrightarrow>
      (case cfg_max_buffer_bytes (config c) of
         Some limit \<Rightarrow> unat (buffer_bytes c) + unat n \<le> unat limit | None \<Rightarrow> True)) \<and>
    (if fst (reserve_buffer n c) then release_buffer n (snd (reserve_buffer n c)) = c
     else snd (reserve_buffer n c) = c)"
proof -
  have iff: "fst (reserve_buffer n c) \<longleftrightarrow> (\<forall>l. map_option unat (cfg_max_buffer_bytes (config c)) = Some l \<longrightarrow>
      unat (buffer_bytes c) + unat n \<le> l)"
    using core_budget.reserve_iff [OF assms] by simp
  have "unat (buffer_bytes (release_buffer n (snd (reserve_buffer n c)))) = unat (buffer_bytes c)"
    if "fst (reserve_buffer n c)"
    using core_budget.reserve_release_cancel [OF assms] that by simp
  then have "buffer_bytes (release_buffer n (snd (reserve_buffer n c))) = buffer_bytes c"
    if "fst (reserve_buffer n c)" using that by (simp add: word_unat_eq_iff)
  then have "release_buffer n (snd (reserve_buffer n c)) = c" if "fst (reserve_buffer n c)"
    using that by (auto intro!: core.equality)
  moreover have "snd (reserve_buffer n c) = c" if "\<not> fst (reserve_buffer n c)"
    using core_budget.reserve_refused [OF assms] that by simp
  ultimately show ?thesis unfolding iff [symmetric] using iff by (auto split: option.split)
qed

end
