(* ===== verification/Tcp_Stream.thy ===== *)
theory Tcp_Stream
  imports Netstack_Core
begin

text \<open>
  \<open>src/src/stream/tcp.rs\<close>: the accepted TCP connection as \<open>AsyncRead\<close>/\<open>AsyncWrite\<close>, and what dropping
  it does. A stream reaches its socket by handle through the shared core; \<open>SocketSet::get_mut\<close> panics
  for a handle that is gone, so each operation is an option. The task's waker is a number; the
  capacity left in the read buffer is the argument \<open>n\<close>, and the bytes read are the result, with the
  empty list for end of file.
\<close>

record way_tcp_stream =
  ts_interface :: interface_id
  ts_key :: session_key
  ts_handle :: socket_handle
  ts_src_addr :: socket_addr
  ts_dst_addr :: socket_addr

definition way_tcp_stream_new ::
    "interface_id \<Rightarrow> session_key \<Rightarrow> socket_handle \<Rightarrow> socket_addr \<Rightarrow> socket_addr \<Rightarrow> way_tcp_stream" where
  "way_tcp_stream_new interface key handle src_addr dst_addr =
     \<lparr>ts_interface = interface, ts_key = key, ts_handle = handle,
      ts_src_addr = src_addr, ts_dst_addr = dst_addr\<rparr>"

definition way_tcp_stream_src_addr :: "way_tcp_stream \<Rightarrow> socket_addr" where
  "way_tcp_stream_src_addr st = ts_src_addr st"

definition way_tcp_stream_dst_addr :: "way_tcp_stream \<Rightarrow> socket_addr" where
  "way_tcp_stream_dst_addr st = ts_dst_addr st"

definition way_tcp_stream_interface_id :: "way_tcp_stream \<Rightarrow> interface_id" where
  "way_tcp_stream_interface_id st = ts_interface st"

datatype io_error = IoNotConnected | IoBrokenPipe

datatype 'a poll = PollPending | PollReady 'a

definition put_tcp ::
    "('i, 's, 't, 'u, 'x) smoltcp_scheme \<Rightarrow> ('i, 's, 't) interface_slot \<Rightarrow> socket_handle \<Rightarrow> 't \<Rightarrow>
     ('i, 's, 't) shared \<Rightarrow> ('i, 's, 't) shared" where
  "put_tcp S s h t sh = sh\<lparr>sh_core := put_socket S s h (TcpSocket t) (sh_core sh)\<rparr>"

definition tcp_poll_read ::
    "('i, 's, 't, 'u, 'x) smoltcp_scheme \<Rightarrow> way_tcp_stream \<Rightarrow> waker \<Rightarrow> nat \<Rightarrow> ('i, 's, 't) shared \<Rightarrow>
     ((io_error + bytes) poll \<times> ('i, 's, 't) shared) option" where
  "tcp_poll_read S st wk n sh =
     (case core_slot (sh_core sh) (ts_interface st) of
        None \<Rightarrow> Some (PollReady (Inl IoNotConnected), sh)
      | Some slot \<Rightarrow> do {
          socket \<leftarrow> get_mut_tcp S (sockets slot) (ts_handle st);
          let (result, socket) = tcp_recv_slice S socket n;
          let put = (\<lambda>t. put_tcp S slot (ts_handle st) t sh);
          case result of
            Inr data \<Rightarrow>
              if data \<noteq> [] then Some (PollReady (Inr data), put socket)
              else Some (PollPending, notify_poll (put (tcp_register_recv_waker S socket wk)))
          | Inl RecvFinished \<Rightarrow> Some (PollReady (Inr []), put socket)
          | Inl RecvInvalidState \<Rightarrow>
              if \<not> tcp_is_open S socket then Some (PollReady (Inr []), put socket)
              else Some (PollPending, notify_poll (put (tcp_register_recv_waker S socket wk)))
        })"

definition tcp_poll_write ::
    "('i, 's, 't, 'u, 'x) smoltcp_scheme \<Rightarrow> way_tcp_stream \<Rightarrow> waker \<Rightarrow> bytes \<Rightarrow> ('i, 's, 't) shared \<Rightarrow>
     ((io_error + nat) poll \<times> ('i, 's, 't) shared) option" where
  "tcp_poll_write S st wk data sh =
     (case core_slot (sh_core sh) (ts_interface st) of
        None \<Rightarrow> Some (PollReady (Inl IoNotConnected), sh)
      | Some slot \<Rightarrow> do {
          socket \<leftarrow> get_mut_tcp S (sockets slot) (ts_handle st);
          let (result, socket) = tcp_send_slice S socket data;
          let put = (\<lambda>t. put_tcp S slot (ts_handle st) t sh);
          case result of
            Inr n \<Rightarrow>
              if n > 0 then Some (PollReady (Inr n), put socket)
              else Some (PollPending, notify_poll (put (tcp_register_send_waker S socket wk)))
          | Inl SendInvalidState \<Rightarrow>
              if \<not> tcp_is_open S socket then Some (PollReady (Inl IoBrokenPipe), put socket)
              else Some (PollPending, notify_poll (put (tcp_register_send_waker S socket wk)))
        })"

definition tcp_poll_flush :: "(io_error + unit) poll" where
  "tcp_poll_flush = PollReady (Inr ())"

text \<open>The close that shutting down and dropping a stream share: a FIN if the socket is open.\<close>

definition close_if_open ::
    "('i, 's, 't, 'u, 'x) smoltcp_scheme \<Rightarrow> way_tcp_stream \<Rightarrow> ('i, 's, 't) shared \<Rightarrow>
     ('i, 's, 't) shared option" where
  "close_if_open S st sh =
     (case core_slot (sh_core sh) (ts_interface st) of
        None \<Rightarrow> Some sh
      | Some slot \<Rightarrow> do {
          socket \<leftarrow> get_mut_tcp S (sockets slot) (ts_handle st);
          Some (if tcp_is_open S socket
                then put_tcp S slot (ts_handle st) (tcp_close S socket) sh
                else sh)
        })"

definition tcp_poll_shutdown ::
    "('i, 's, 't, 'u, 'x) smoltcp_scheme \<Rightarrow> way_tcp_stream \<Rightarrow> ('i, 's, 't) shared \<Rightarrow>
     ((io_error + unit) poll \<times> ('i, 's, 't) shared) option" where
  "tcp_poll_shutdown S st sh = do {
     sh \<leftarrow> close_if_open S st sh;
     Some (PollReady (Inr ()), notify_poll sh)
   }"

definition update_tcp_entry ::
    "session_key \<Rightarrow> (tcp_entry \<Rightarrow> tcp_entry) \<Rightarrow> session_manager \<Rightarrow> session_manager" where
  "update_tcp_entry key f m =
     (case hm_get (mgr_tcp m) key of
        Some entry \<Rightarrow> m\<lparr>mgr_tcp := hm_insert key (f entry) (mgr_tcp m)\<rparr>
      | None \<Rightarrow> m)"

definition set_orphaned :: "session_key \<Rightarrow> ('i, 's, 't) shared \<Rightarrow> ('i, 's, 't) shared" where
  "set_orphaned key sh =
     sh\<lparr>sh_core := (sh_core sh)
       \<lparr>manager := update_tcp_entry key (\<lambda>entry. entry\<lparr>te_orphaned := True\<rparr>) (manager (sh_core sh))\<rparr>\<rparr>"

definition tcp_drop ::
    "('i, 's, 't, 'u, 'x) smoltcp_scheme \<Rightarrow> way_tcp_stream \<Rightarrow> ('i, 's, 't) shared \<Rightarrow>
     ('i, 's, 't) shared option" where
  "tcp_drop S st sh = do {
     let entry_exists = (hm_get (mgr_tcp (manager (sh_core sh))) (ts_key st) \<noteq> None);
     sh \<leftarrow> (if entry_exists then do {
               sh \<leftarrow> close_if_open S st sh;
               Some (set_orphaned (ts_key st) sh)
             } else Some sh);
     Some (notify_poll sh)
   }"

end
