(* ===== verification/Udp_Session.thy ===== *)
theory Udp_Session
  imports Tcp_Stream
begin

text \<open>
  \<open>src/src/stream/udp.rs\<close>: the UDP pseudo-session. \<open>recv\<close> and \<open>send\<close> are loops around an \<open>await\<close>; one
  iteration, from one wake-up to the next, is \<open>udp_recv_poll\<close> and \<open>udp_send_poll\<close>, where \<open>PollPending\<close>
  is the wait. \<open>try_send\<close> and \<open>drop\<close> run under the lock. The queue of a session is addressed by its
  index in the store of queues.
\<close>

datatype send_outcome = SendSent | SendFull | SendFailed netstack_error

record way_udp_session =
  us_interface :: interface_id
  us_key :: session_key
  us_socket :: socket_handle
  us_queue :: queue_id
  us_src_addr :: socket_addr
  us_dst_addr :: socket_addr

definition way_udp_session_new ::
    "interface_id \<Rightarrow> session_key \<Rightarrow> socket_handle \<Rightarrow> queue_id \<Rightarrow> socket_addr \<Rightarrow> socket_addr \<Rightarrow>
     way_udp_session" where
  "way_udp_session_new interface key socket queue src_addr dst_addr =
     \<lparr>us_interface = interface, us_key = key, us_socket = socket, us_queue = queue,
      us_src_addr = src_addr, us_dst_addr = dst_addr\<rparr>"

definition way_udp_session_src_addr :: "way_udp_session \<Rightarrow> socket_addr" where
  "way_udp_session_src_addr us = us_src_addr us"

definition way_udp_session_dst_addr :: "way_udp_session \<Rightarrow> socket_addr" where
  "way_udp_session_dst_addr us = us_dst_addr us"

definition way_udp_session_interface_id :: "way_udp_session \<Rightarrow> interface_id" where
  "way_udp_session_interface_id us = us_interface us"

definition udp_recv_poll ::
    "way_udp_session \<Rightarrow> ('i, 's, 't) shared \<Rightarrow> bytes option poll \<times> ('i, 's, 't) shared" where
  "udp_recv_poll us sh =
     (case udp_queue_pop (sh_queues sh ! us_queue us) of
        (Some data, q) \<Rightarrow> (PollReady (Some data), sh\<lparr>sh_queues := (sh_queues sh)[us_queue us := q]\<rparr>)
      | (None, q) \<Rightarrow>
          if is_closed (sh_queues sh ! us_queue us) then (PollReady None, sh)
          else (PollPending, sh))"

definition udp_try_send ::
    "('i, 's, 't, 'u, 'x) smoltcp_scheme \<Rightarrow> way_udp_session \<Rightarrow> bytes \<Rightarrow> ip_endpoint \<Rightarrow>
     ('i, 's, 't) shared \<Rightarrow> (send_outcome \<times> ('i, 's, 't) shared) option" where
  "udp_try_send S us payload target sh =
     (if is_closed (sh_queues sh ! us_queue us) then Some (SendFailed UdpNotOpen, sh)
      else case core_slot (sh_core sh) (us_interface us) of
        None \<Rightarrow> Some (SendFailed (Internal ''interface is gone''), sh)
      | Some slot \<Rightarrow> do {
          socket \<leftarrow> get_mut_udp S (sockets slot) (us_socket us);
          let (result, socket) = udp_send_slice S socket payload target;
          let sh = sh\<lparr>sh_core := put_socket S slot (us_socket us) (UdpSocket socket) (sh_core sh)\<rparr>;
          Some (case result of
                  Inr _ \<Rightarrow> SendSent
                | Inl SendBufferFull \<Rightarrow> SendFull
                | Inl SendUnaddressable \<Rightarrow> SendFailed UdpNotOpen, sh)
        })"

definition udp_send_poll ::
    "('i, 's, 't, 'u, 'x) smoltcp_scheme \<Rightarrow> way_udp_session \<Rightarrow> bytes \<Rightarrow> ('i, 's, 't) shared \<Rightarrow>
     ((netstack_error + unit) poll \<times> ('i, 's, 't) shared) option" where
  "udp_send_poll S us payload sh = do {
     let target = \<lparr>ep_addr = ep_addr (sk_src (us_key us)), ep_port = ep_port (sk_src (us_key us))\<rparr>;
     (outcome, sh) \<leftarrow> udp_try_send S us payload target sh;
     case outcome of
       SendSent \<Rightarrow> Some (PollReady (Inr ()), notify_poll sh)
     | SendFull \<Rightarrow> Some (PollPending, notify_poll sh)
     | SendFailed e \<Rightarrow> Some (PollReady (Inl e), sh)
   }"

text \<open>
  Removing a session from the registry, as both \<open>WayUdpSession::drop\<close> and the timeout sweep of the
  runner do it: the entry goes, its queue is closed, its reference to the shared socket is released,
  and the socket itself is removed with the last reference. The result says whether the socket was
  removed, with the MTU of its slot, from which the caller computes the bytes to give back.
\<close>

definition udp_unregister ::
    "('i, 's, 't, 'u, 'x) smoltcp_scheme \<Rightarrow> interface_id \<Rightarrow> session_key \<Rightarrow>
     ('i, 's, 't) core \<times> udp_queue list \<Rightarrow>
     (usize option \<times> ('i, 's, 't) core \<times> udp_queue list) option" where
  "udp_unregister S interface key = (\<lambda>(c, qs).
     case hm_get (mgr_udp (manager c)) key of
       None \<Rightarrow> Some (None, c, qs)
     | Some entry \<Rightarrow>
         (let m = (manager c)\<lparr>mgr_udp := hm_remove key (mgr_udp (manager c))\<rparr>;
              qs = qs[ue_queue entry := mark_closed (qs ! ue_queue entry)];
              (released, m) = udp_socket_release (interface, sk_dst key) m;
              c = c\<lparr>manager := m\<rparr>
          in if released then
               case core_slot c interface of
                 None \<Rightarrow> Some (None, c, qs)
               | Some slot \<Rightarrow> do {
                   _ \<leftarrow> ss_get S (sockets slot) (ue_socket entry);
                   let slot' = slot\<lparr>sockets := ss_remove S (sockets slot) (ue_socket entry)\<rparr>;
                   Some (Some (slot_mtu slot), put_slot interface slot' c, qs)
                 }
             else Some (None, c, qs)))"

definition udp_drop ::
    "('i, 's, 't, 'u, 'x) smoltcp_scheme \<Rightarrow> way_udp_session \<Rightarrow> ('i, 's, 't) shared \<Rightarrow>
     ('i, 's, 't) shared option" where
  "udp_drop S us sh = do {
     (removed, c, qs) \<leftarrow> udp_unregister S (us_interface us) (us_key us) (sh_core sh, sh_queues sh);
     let c = (case removed of
                Some mtu \<Rightarrow> release_buffer (udp_per_socket_bytes (config c) mtu) c
              | None \<Rightarrow> c);
     Some (notify_poll (sh\<lparr>sh_core := c, sh_queues := qs\<rparr>))
   }"

end
