(* ===== verification/Session.thy ===== *)
theory Session
  imports Tcp_Stream Udp_Session
begin

text \<open>
  \<open>src/src/session/mod.rs\<close>: an accepted session, and what happens to the shared state when a session
  value is dropped (the \<open>Drop\<close> implementations of the two stream types).
\<close>

datatype session = SessionTcp way_tcp_stream | SessionUdp way_udp_session

fun session_drop ::
    "('i, 's, 't, 'u, 'x) smoltcp_scheme \<Rightarrow> session \<Rightarrow> ('i, 's, 't) shared \<Rightarrow>
     ('i, 's, 't) shared option" where
  "session_drop S (SessionTcp st) sh = tcp_drop S st sh"
| "session_drop S (SessionUdp us) sh = udp_drop S us sh"

end
