(* ===== verification/Ingress_Parser.thy ===== *)
theory Ingress_Parser
  imports Smoltcp_Interface
begin

text \<open>
  The packet inspection of the pre-pass, \<open>parse_l4\<close> and \<open>dispatch_l4\<close> of \<open>src/src/runner.rs\<close>: the IP
  version nibble selects the parser, the next header selects the transport, and the result is the pair
  of endpoints with the question whether a TCP segment opens a connection.
\<close>

datatype l4 = L4_Tcp bool | L4_Udp

definition dispatch_l4 ::
    "wire \<Rightarrow> ip_address \<Rightarrow> ip_address \<Rightarrow> ip_protocol \<Rightarrow> bytes \<Rightarrow>
     (ip_endpoint \<times> ip_endpoint \<times> l4) option" where
  "dispatch_l4 W src_ip dst_ip next_header payload =
     (case next_header of
        IpProtoTcp \<Rightarrow>
          if tcp_new_checked W payload then do {
            repr \<leftarrow> tcp_repr_parse W payload src_ip dst_ip;
            let src = \<lparr>ep_addr = src_ip, ep_port = tr_src_port repr\<rparr>;
            let dst = \<lparr>ep_addr = dst_ip, ep_port = tr_dst_port repr\<rparr>;
            let syn = (tr_control repr = CtlSyn \<and> tr_ack_number repr = None);
            Some (src, dst, L4_Tcp syn)
          } else None
      | IpProtoUdp \<Rightarrow>
          if udp_new_checked W payload then do {
            repr \<leftarrow> udp_repr_parse W payload src_ip dst_ip;
            let src = \<lparr>ep_addr = src_ip, ep_port = ur_src_port repr\<rparr>;
            let dst = \<lparr>ep_addr = dst_ip, ep_port = ur_dst_port repr\<rparr>;
            Some (src, dst, L4_Udp)
          } else None
      | IpProtoOther _ \<Rightarrow> None)"

definition parse_l4 :: "wire \<Rightarrow> bytes \<Rightarrow> (ip_endpoint \<times> ip_endpoint \<times> l4) option" where
  "parse_l4 W pkt =
     (case pkt of
        [] \<Rightarrow> None
      | first # _ \<Rightarrow>
          (let version = drop_bit 4 first in
           if version = 4 then
             if ipv4_new_checked W pkt then do {
               repr \<leftarrow> ipv4_repr_parse W pkt;
               dispatch_l4 W (Ipv4 (ipr_src_addr repr)) (Ipv4 (ipr_dst_addr repr))
                 (ipr_next_header repr) (ipv4_payload W pkt)
             } else None
           else if version = 6 then
             if ipv6_new_checked W pkt then do {
               repr \<leftarrow> ipv6_repr_parse W pkt;
               dispatch_l4 W (Ipv6 (ipr_src_addr repr)) (Ipv6 (ipr_dst_addr repr))
                 (ipr_next_header repr) (ipv6_payload W pkt)
             } else None
           else None))"

lemma dispatch_l4_cases:
  assumes "dispatch_l4 W s d nh payload = Some (src, dst, l)"
  shows "ep_addr src = s \<and> ep_addr dst = d \<and>
    ((\<exists>repr. nh = IpProtoTcp \<and> tcp_repr_parse W payload s d = Some repr \<and>
        ep_port src = tr_src_port repr \<and> ep_port dst = tr_dst_port repr \<and>
        l = L4_Tcp (tr_control repr = CtlSyn \<and> tr_ack_number repr = None)) \<or>
     (\<exists>repr. nh = IpProtoUdp \<and> udp_repr_parse W payload s d = Some repr \<and>
        ep_port src = ur_src_port repr \<and> ep_port dst = ur_dst_port repr \<and> l = L4_Udp))"
  using assms
  by (auto simp: dispatch_l4_def Let_def bind_eq_Some_conv split: ip_protocol.splits if_splits)

lemma parse_l4_dispatch:
  assumes "parse_l4 W pkt = Some r"
  obtains s d nh payload where "dispatch_l4 W s d nh payload = Some r"
  using assms
  by (auto simp: parse_l4_def Let_def bind_eq_Some_conv split: list.splits if_splits)

lemma parse_l4_dst_port:
  assumes "wire_laws W" and "parse_l4 W pkt = Some (src, dst, l)"
  shows "ep_port dst \<noteq> 0"
proof -
  obtain s d nh payload where "dispatch_l4 W s d nh payload = Some (src, dst, l)"
    using assms(2) by (rule parse_l4_dispatch)
  from dispatch_l4_cases [OF this] assms(1) show ?thesis
    by (auto simp: wire_laws_def)
qed

text \<open>An address family never changes on the way: both endpoints come from the same IP header.\<close>

lemma parse_l4_same_family:
  assumes "parse_l4 W pkt = Some (src, dst, l)"
  shows "(\<exists>a b. ep_addr src = Ipv4 a \<and> ep_addr dst = Ipv4 b \<and> drop_bit 4 (hd pkt) = 4) \<or>
    (\<exists>a b. ep_addr src = Ipv6 a \<and> ep_addr dst = Ipv6 b \<and> drop_bit 4 (hd pkt) = 6)"
  using assms
  by (auto simp: parse_l4_def Let_def bind_eq_Some_conv dest!: dispatch_l4_cases
      split: list.splits if_splits)

end
