(* ===== verification/Runner.thy ===== *)
theory Runner
  imports Session Ingress_Parser
begin

text \<open>
  \<open>src/src/runner.rs\<close>: the background task. A poll cycle (\<open>poll_once\<close>) inspects the queued packets and
  allocates sockets for new flows (\<open>pre_pass\<close>), polls every interface, does the bookkeeping after the
  poll (\<open>post_pass\<close>: accept, reap, redistribute datagrams, sweep), and forwards what was produced.
  The parts of \<open>post_pass\<close> are definitions of their own, in the order of the source. Log statements
  have no effect on the state and are left out.
\<close>

text \<open>The iteration orders of the three hash maps of the registry (see \<open>Netstack_Prelude\<close>).\<close>

record iter_order =
  ord_tcp :: "session_key \<Rightarrow> nat"
  ord_udp :: "session_key \<Rightarrow> nat"
  ord_dst :: "dst_key \<Rightarrow> nat"

section \<open>Allocation\<close>

definition alloc_tcp ::
    "('i, 's, 't, 'u, 'x) smoltcp_scheme \<Rightarrow> nat \<Rightarrow> session_key \<Rightarrow> ('i, 's, 't) core \<Rightarrow>
     ('i, 's, 't) core option" where
  "alloc_tcp S i key c =
     (if i < length (slots c) then
        let slot = slots c ! i;
            buf_size = slot_tcp_buffer_size slot;
            need = 2 * buf_size;
            (granted, c) = reserve_buffer need c
        in if \<not> granted then Some c
           else
             let (socket, pool) =
                   (case tcp_pool slot of
                      s # rest \<Rightarrow> (s, rest)
                    | [] \<Rightarrow> (tcp_new S buf_size buf_size, []));
                 slot = slot\<lparr>tcp_pool := pool\<rparr>;
                 listen_endpoint =
                   \<lparr>le_addr = Some (ep_addr (sk_dst key)), le_port = ep_port (sk_dst key)\<rparr>
             in case tcp_listen S socket listen_endpoint of
                  Inl err \<Rightarrow> Some (release_buffer need (c\<lparr>slots := (slots c)[i := slot]\<rparr>))
                | Inr socket \<Rightarrow>
                    (let (handle, socks) = ss_add S (sockets slot) (TcpSocket socket);
                         entry = \<lparr>te_handle = handle, te_state = TcpPending, te_orphaned = False\<rparr>
                     in Some (c\<lparr>slots := (slots c)[i := slot\<lparr>sockets := socks\<rparr>],
                                manager := (manager c)
                                  \<lparr>mgr_tcp := hm_insert key entry (mgr_tcp (manager c))\<rparr>\<rparr>))
      else None)"

definition udp_create ::
    "('i, 's, 't, 'u, 'x) smoltcp_scheme \<Rightarrow> usize \<Rightarrow> usize \<Rightarrow> ip_endpoint \<Rightarrow>
     ('i, 's, 't) interface_slot \<Rightarrow> socket_handle option \<times> ('i, 's, 't) interface_slot" where
  "udp_create S packets bytes dst slot =
     (let socket = udp_new S (packets, bytes) (packets, bytes);
          endpoint = \<lparr>ep_addr = ep_addr dst, ep_port = ep_port dst\<rparr>
      in case udp_bind S socket endpoint of
           Inl err \<Rightarrow> (None, slot)
         | Inr socket \<Rightarrow>
             (let (handle, socks) = ss_add S (sockets slot) (UdpSocket socket)
              in (Some handle, slot\<lparr>sockets := socks\<rparr>)))"

definition alloc_udp ::
    "('i, 's, 't, 'u, 'x) smoltcp_scheme \<Rightarrow> nat \<Rightarrow> session_key \<Rightarrow> instant \<Rightarrow> ('i, 's, 't) shared \<Rightarrow>
     (session option \<times> ('i, 's, 't) shared) option" where
  "alloc_udp S i key now sh =
     (let c = sh_core sh in
      if i < length (slots c) then
        let slot = slots c ! i;
            packets = max (cfg_udp_buffer_packets (config c)) 1;
            bytes = max (cfg_udp_buffer_bytes (config c)) (slot_mtu slot);
            fresh = (hm_get (udp_dst_sockets (manager c)) (sk_interface key, sk_dst key) = None);
            (granted, c) =
              (if fresh then reserve_buffer (udp_per_socket_bytes (config c) (slot_mtu slot)) c
               else (True, c))
        in if \<not> granted then Some (None, sh\<lparr>sh_core := c\<rparr>)
           else
             let (handle, m, slot) =
                   udp_socket_for (slot_id slot) (sk_dst key) (udp_create S packets bytes (sk_dst key))
                     (manager c) slot;
                 c = c\<lparr>slots := (slots c)[i := slot], manager := m\<rparr>
             in case handle of
                  None \<Rightarrow> Some (None, sh\<lparr>sh_core := c\<rparr>)
                | Some handle \<Rightarrow>
                    (let m = udp_socket_retain (slot_id slot, sk_dst key) m;
                         queue = length (sh_queues sh);
                         entry = \<lparr>ue_socket = handle, ue_queue = queue, ue_last_activity = now\<rparr>;
                         m = m\<lparr>mgr_udp := hm_insert key entry (mgr_udp m)\<rparr>;
                         session = way_udp_session_new (sk_interface key) key handle queue
                           (to_socket_addr (sk_src key)) (to_socket_addr (sk_dst key))
                     in Some (Some (SessionUdp session),
                              sh\<lparr>sh_core := c\<lparr>manager := m\<rparr>,
                                 sh_queues := sh_queues sh @ [udp_queue_new]\<rparr>))
      else None)"

section \<open>Pre-pass\<close>

definition pre_pass_packet ::
    "('i, 's, 't, 'u, 'x) smoltcp_scheme \<Rightarrow> wire \<Rightarrow> instant \<Rightarrow> nat \<Rightarrow> bytes \<Rightarrow>
     ('i, 's, 't) shared \<times> session list \<Rightarrow> (('i, 's, 't) shared \<times> session list) option" where
  "pre_pass_packet S W now i pkt = (\<lambda>(sh, accepted).
     let c = sh_core sh in
     case parse_l4 W pkt of
       None \<Rightarrow> Some (sh, accepted)
     | Some (src, dst, L4_Tcp syn) \<Rightarrow>
         if syn then
           let key = session_key_new (slot_id (slots c ! i)) ProtoTcp src dst in
           if get_tcp (manager c) key \<noteq> None then Some (sh, accepted)
           else if unat (cfg_tcp_max_connections (config c)) \<le> length (mgr_tcp (manager c))
           then Some (sh, accepted)
           else do {
             c \<leftarrow> alloc_tcp S i key c;
             Some (sh\<lparr>sh_core := c\<rparr>, accepted)
           }
         else Some (sh, accepted)
     | Some (src, dst, L4_Udp) \<Rightarrow>
         let key = session_key_new (slot_id (slots c ! i)) ProtoUdp src dst in
         if get_udp (manager c) key \<noteq> None then Some (sh, accepted)
         else if unat (cfg_udp_max_sessions (config c)) \<le> length (mgr_udp (manager c))
         then Some (sh, accepted)
         else do {
           (session, sh) \<leftarrow> alloc_udp S i key now sh;
           Some (sh, case session of Some s \<Rightarrow> accepted @ [s] | None \<Rightarrow> accepted)
         })"

definition set_ingress ::
    "nat \<Rightarrow> bytes list \<Rightarrow> ('i, 's, 't) shared \<Rightarrow> ('i, 's, 't) shared" where
  "set_ingress i pkts sh =
     (let c = sh_core sh; slot = slots c ! i in
      sh\<lparr>sh_core := c\<lparr>slots := (slots c)[i := slot\<lparr>device := (device slot)\<lparr>ingress := pkts\<rparr>\<rparr>]\<rparr>\<rparr>)"

text \<open>One slot: take the packets, inspect each, put them back behind whatever is queued by then.\<close>

definition pre_pass_slot ::
    "('i, 's, 't, 'u, 'x) smoltcp_scheme \<Rightarrow> wire \<Rightarrow> instant \<Rightarrow> nat \<Rightarrow>
     ('i, 's, 't) shared \<times> session list \<Rightarrow> (('i, 's, 't) shared \<times> session list) option" where
  "pre_pass_slot S W now i = (\<lambda>(sh, accepted). do {
     let packet_sets = ingress (device (slots (sh_core sh) ! i));
     (sh, accepted) \<leftarrow>
       for_each (pre_pass_packet S W now i) packet_sets (set_ingress i [] sh, accepted);
     let queued = ingress (device (slots (sh_core sh) ! i));
     Some (set_ingress i (queued @ packet_sets) sh, accepted)
   })"

definition pre_pass ::
    "('i, 's, 't, 'u, 'x) smoltcp_scheme \<Rightarrow> wire \<Rightarrow> instant \<Rightarrow>
     ('i, 's, 't) shared \<times> session list \<Rightarrow> (('i, 's, 't) shared \<times> session list) option" where
  "pre_pass S W now = (\<lambda>(sh, accepted).
     for_each (pre_pass_slot S W now) [0..<length (slots (sh_core sh))] (sh, accepted))"

section \<open>Polling the interfaces\<close>

definition poll_slot ::
    "('i, 's, 't, 'u, 'x) smoltcp_scheme \<Rightarrow> instant \<Rightarrow> ('i, 's, 't) interface_slot \<Rightarrow>
     ('i, 's, 't) interface_slot" where
  "poll_slot S now slot =
     (let (ifc, dev, socks) = iface_poll S now (iface slot) (device slot) (sockets slot)
      in slot\<lparr>iface := ifc, device := dev, sockets := socks\<rparr>)"

definition poll_slots ::
    "('i, 's, 't, 'u, 'x) smoltcp_scheme \<Rightarrow> instant \<Rightarrow> ('i, 's, 't) core \<Rightarrow> ('i, 's, 't) core" where
  "poll_slots S now c = c\<lparr>slots := map (poll_slot S now) (slots c)\<rparr>"

section \<open>Post-pass: TCP\<close>

definition tcp_transition ::
    "('i, 's, 't, 'u, 'x) smoltcp_scheme \<Rightarrow> session_key \<times> tcp_entry \<Rightarrow>
     ('i, 's, 't) core \<times> session list \<times> session_key list \<Rightarrow>
     (('i, 's, 't) core \<times> session list \<times> session_key list) option" where
  "tcp_transition S = (\<lambda>(key, entry) (c, accepted, reap).
     case core_slot c (sk_interface key) of
       None \<Rightarrow> Some (c, accepted, reap)
     | Some slot \<Rightarrow> do {
         socket \<leftarrow> get_mut_tcp S (sockets slot) (te_handle entry);
         let fsm = tcp_fsm_of S socket;
         let (entry, accepted) =
           (case te_state entry of
              TcpPending \<Rightarrow>
                if fsm = FsmEstablished
                then (entry\<lparr>te_state := TcpEstablished\<rparr>,
                      accepted @ [SessionTcp (way_tcp_stream_new (sk_interface key) key
                        (te_handle entry) (to_socket_addr (sk_src key)) (to_socket_addr (sk_dst key)))])
                else (entry, accepted)
            | TcpEstablished \<Rightarrow>
                if fsm = FsmClosed \<or> fsm = FsmTimeWait \<or> fsm = FsmListen
                then (entry\<lparr>te_state := TcpClosed\<rparr>, accepted)
                else (entry, accepted)
            | TcpClosed \<Rightarrow> (entry, accepted));
         let reap = (if te_orphaned entry \<and> fsm = FsmClosed then reap @ [key] else reap);
         Some (c\<lparr>manager := (manager c)\<lparr>mgr_tcp := hm_insert key entry (mgr_tcp (manager c))\<rparr>\<rparr>,
               accepted, reap)
       })"

definition tcp_transitions ::
    "('i, 's, 't, 'u, 'x) smoltcp_scheme \<Rightarrow> iter_order \<Rightarrow> ('i, 's, 't) core \<times> session list \<Rightarrow>
     (('i, 's, 't) core \<times> session list \<times> session_key list) option" where
  "tcp_transitions S ord = (\<lambda>(c, accepted).
     for_each (tcp_transition S) (hm_iter (ord_tcp ord) (mgr_tcp (manager c))) (c, accepted, []))"

definition tcp_reap_one ::
    "('i, 's, 't, 'u, 'x) smoltcp_scheme \<Rightarrow> session_key \<Rightarrow> ('i, 's, 't) core \<times> usize \<Rightarrow>
     (('i, 's, 't) core \<times> usize) option" where
  "tcp_reap_one S key = (\<lambda>(c, released_total).
     case hm_get (mgr_tcp (manager c)) key of
       None \<Rightarrow> Some (c, released_total)
     | Some entry \<Rightarrow>
         (let c = c\<lparr>manager := (manager c)\<lparr>mgr_tcp := hm_remove key (mgr_tcp (manager c))\<rparr>\<rparr> in
          case core_slot c (sk_interface key) of
            None \<Rightarrow> Some (c, released_total)
          | Some slot \<Rightarrow> do {
              let size = slot_tcp_buffer_size slot;
              removed \<leftarrow> ss_get S (sockets slot) (te_handle entry);
              let slot = slot\<lparr>sockets := ss_remove S (sockets slot) (te_handle entry)\<rparr>;
              let slot =
                (case removed of
                   TcpSocket s \<Rightarrow>
                     if length (tcp_pool slot) < unat (slot_tcp_pool_max slot)
                     then slot\<lparr>tcp_pool := tcp_pool slot @ [s]\<rparr> else slot
                 | UdpSocket _ \<Rightarrow> slot);
              Some (put_slot (sk_interface key) slot c, released_total + 2 * size)
            }))"

section \<open>Post-pass: UDP\<close>

text \<open>Draining one socket: \<open>recv\<close> until it reports \<open>Exhausted\<close>, skipping truncated datagrams.\<close>

partial_function (option) udp_drain ::
    "('i, 's, 't, 'u, 'x) smoltcp_scheme \<Rightarrow> 'u \<Rightarrow> ((bytes \<times> ip_endpoint) list \<times> 'u) option" where
  "udp_drain S u =
     (case udp_recv S u of
        (result, u) \<Rightarrow>
          (case result of
             Inr datagram \<Rightarrow>
               Option.bind (udp_drain S u) (\<lambda>(got, u). Some (datagram # got, u))
           | Inl err \<Rightarrow>
               (case err of
                  RecvExhausted \<Rightarrow> Some ([], u)
                | RecvTruncated \<Rightarrow> udp_drain S u)))"

declare udp_drain.simps [code]

definition drain_socket ::
    "('i, 's, 't, 'u, 'x) smoltcp_scheme \<Rightarrow> socket_handle \<times> ip_endpoint \<Rightarrow>
     ('i, 's, 't) interface_slot \<times> (session_key \<times> bytes) list \<Rightarrow>
     (('i, 's, 't) interface_slot \<times> (session_key \<times> bytes) list) option" where
  "drain_socket S = (\<lambda>(handle, bound) (slot, routed). do {
     socket \<leftarrow> get_mut_udp S (sockets slot) handle;
     (got, socket) \<leftarrow> udp_drain S socket;
     let keyed = map (\<lambda>(payload, endpoint).
           let src = \<lparr>ep_addr = ep_addr endpoint, ep_port = ep_port endpoint\<rparr>
           in (session_key_new (slot_id slot) ProtoUdp src bound, payload)) got;
     Some (slot\<lparr>sockets := ss_put S (sockets slot) handle (UdpSocket socket)\<rparr>, routed @ keyed)
   })"

definition slot_dst_sockets ::
    "iter_order \<Rightarrow> session_manager \<Rightarrow> interface_id \<Rightarrow> (socket_handle \<times> ip_endpoint) list" where
  "slot_dst_sockets ord m id' =
     map (\<lambda>((_, ep), (h, _)). (h, ep))
       (filter (\<lambda>((ifc, _), _). ifc = id') (hm_iter (ord_dst ord) (udp_dst_sockets m)))"

primrec drain_slots ::
    "('i, 's, 't, 'u, 'x) smoltcp_scheme \<Rightarrow> iter_order \<Rightarrow> session_manager \<Rightarrow>
     ('i, 's, 't) interface_slot list \<Rightarrow>
     (('i, 's, 't) interface_slot list \<times> (session_key \<times> bytes) list) option" where
  "drain_slots S ord m [] = Some ([], [])"
| "drain_slots S ord m (slot # rest) = do {
     (slot, here) \<leftarrow> for_each (drain_socket S) (slot_dst_sockets ord m (slot_id slot)) (slot, []);
     (rest, later) \<leftarrow> drain_slots S ord m rest;
     Some (slot # rest, here @ later)
   }"

definition route_datagram ::
    "instant \<Rightarrow> session_key \<times> bytes \<Rightarrow> ('i, 's, 't) core \<times> udp_queue list \<Rightarrow>
     ('i, 's, 't) core \<times> udp_queue list" where
  "route_datagram now = (\<lambda>(key, data) (c, qs).
     case hm_get (mgr_udp (manager c)) key of
       Some entry \<Rightarrow>
         (c\<lparr>manager := (manager c)
             \<lparr>mgr_udp := hm_insert key (entry\<lparr>ue_last_activity := now\<rparr>) (mgr_udp (manager c))\<rparr>\<rparr>,
          qs[ue_queue entry := udp_queue_push data (qs ! ue_queue entry)])
     | None \<Rightarrow> (c, qs))"

definition udp_expired ::
    "('i, 's, 't, 'u, 'x) smoltcp_scheme \<Rightarrow> iter_order \<Rightarrow> instant \<Rightarrow> ('i, 's, 't) core \<Rightarrow>
     session_key list" where
  "udp_expired S ord now c =
     (let timeout = duration_from_std S (cfg_udp_session_timeout (config c))
      in map fst (filter (\<lambda>(key, entry). instant_sub S now (ue_last_activity entry) > timeout)
           (hm_iter (ord_udp ord) (mgr_udp (manager c)))))"

definition udp_reap_one ::
    "('i, 's, 't, 'u, 'x) smoltcp_scheme \<Rightarrow> session_key \<Rightarrow>
     ('i, 's, 't) core \<times> udp_queue list \<times> usize \<Rightarrow>
     (('i, 's, 't) core \<times> udp_queue list \<times> usize) option" where
  "udp_reap_one S key = (\<lambda>(c, qs, released_total). do {
     (removed, c, qs) \<leftarrow> udp_unregister S (sk_interface key) key (c, qs);
     Some (c, qs,
       case removed of
         Some mtu \<Rightarrow> released_total + udp_per_socket_bytes (config c) mtu
       | None \<Rightarrow> released_total)
   })"

section \<open>The post-pass and the poll cycle\<close>

definition post_pass ::
    "('i, 's, 't, 'u, 'x) smoltcp_scheme \<Rightarrow> iter_order \<Rightarrow> instant \<Rightarrow>
     ('i, 's, 't) shared \<times> session list \<Rightarrow> (('i, 's, 't) shared \<times> session list) option" where
  "post_pass S ord now = (\<lambda>(sh, accepted). do {
     (c, accepted, tcp_reap) \<leftarrow> tcp_transitions S ord (sh_core sh, accepted);
     (c, released_total) \<leftarrow> for_each (tcp_reap_one S) tcp_reap (c, 0);
     (slots', routed) \<leftarrow> drain_slots S ord (manager c) (slots c);
     let (c, qs) = fold (route_datagram now) routed (c\<lparr>slots := slots'\<rparr>, sh_queues sh);
     (c, qs, released_total) \<leftarrow>
       for_each (udp_reap_one S) (udp_expired S ord now c) (c, qs, released_total);
     Some (sh\<lparr>sh_core := release_buffer released_total c, sh_queues := qs\<rparr>, accepted)
   })"

definition collect_egress :: "('i, 's, 't) core \<Rightarrow> ('i, 's, 't) core \<times> egress_packet list" where
  "collect_egress c =
     (c\<lparr>slots := map (\<lambda>slot. slot\<lparr>device := (device slot)\<lparr>egress := []\<rparr>\<rparr>) (slots c)\<rparr>,
      concat (map (\<lambda>slot. map (\<lambda>data. \<lparr>eg_interface_id = slot_id slot, eg_data = data\<rparr>)
        (egress (device slot))) (slots c)))"

text \<open>The part of a poll cycle that runs under the lock.\<close>

definition poll_locked ::
    "('i, 's, 't, 'u, 'x) smoltcp_scheme \<Rightarrow> wire \<Rightarrow> iter_order \<Rightarrow> instant \<Rightarrow> ('i, 's, 't) shared \<Rightarrow>
     (('i, 's, 't) shared \<times> session list \<times> egress_packet list) option" where
  "poll_locked S W ord now sh = do {
     (sh, accepted) \<leftarrow> pre_pass S W now (sh, []);
     let sh = sh\<lparr>sh_core := poll_slots S now (sh_core sh)\<rparr>;
     (sh, accepted) \<leftarrow> post_pass S ord now (sh, accepted);
     let (c, out) = collect_egress (sh_core sh);
     Some (sh\<lparr>sh_core := c\<rparr>, accepted, out)
   }"

text \<open>
  Forwarding, with no lock held. The channels are \<open>tokio\<close>'s: \<open>egress_send\<close> and \<open>accept_send\<close> are
  parameters, \<open>None\<close> when the receiver is gone. The first failing egress send ends the cycle; a session
  that cannot be sent is dropped.
\<close>

fun forward_egress ::
    "('e \<Rightarrow> egress_packet \<Rightarrow> 'e option) \<Rightarrow> egress_packet list \<Rightarrow> 'e \<Rightarrow> bool \<times> 'e" where
  "forward_egress egress_send [] ch = (True, ch)"
| "forward_egress egress_send (pkt # pkts) ch =
     (case egress_send ch pkt of
        None \<Rightarrow> (False, ch)
      | Some ch \<Rightarrow> forward_egress egress_send pkts ch)"

definition forward_session ::
    "('i, 's, 't, 'u, 'x) smoltcp_scheme \<Rightarrow> ('a \<Rightarrow> session \<Rightarrow> 'a option) \<Rightarrow> session \<Rightarrow>
     ('i, 's, 't) shared \<times> 'a \<Rightarrow> (('i, 's, 't) shared \<times> 'a) option" where
  "forward_session S accept_send s = (\<lambda>(sh, ch).
     case accept_send ch s of
       Some ch \<Rightarrow> Some (sh, ch)
     | None \<Rightarrow> do {
         sh \<leftarrow> session_drop S s sh;
         Some (sh, ch)
       })"

record ('i, 's, 't, 'e, 'a) runner =
  ru_shared :: "('i, 's, 't) shared"
  ru_egress_tx :: 'e
  ru_accept_tx :: 'a
  scratch_accepted :: "session list"
  scratch_egress :: "egress_packet list"

definition runner_new ::
    "('i, 's, 't) shared \<Rightarrow> 'e \<Rightarrow> 'a \<Rightarrow> ('i, 's, 't, 'e, 'a) runner" where
  "runner_new sh egress_tx accept_tx =
     \<lparr>ru_shared = sh, ru_egress_tx = egress_tx, ru_accept_tx = accept_tx,
      scratch_accepted = [], scratch_egress = []\<rparr>"

definition poll_once ::
    "('i, 's, 't, 'u, 'x) smoltcp_scheme \<Rightarrow> wire \<Rightarrow> ('e \<Rightarrow> egress_packet \<Rightarrow> 'e option) \<Rightarrow>
     ('a \<Rightarrow> session \<Rightarrow> 'a option) \<Rightarrow> iter_order \<Rightarrow> instant \<Rightarrow> ('i, 's, 't, 'e, 'a) runner \<Rightarrow>
     ('i, 's, 't, 'e, 'a) runner option" where
  "poll_once S W egress_send accept_send ord now ru = do {
     sh \<leftarrow> for_each (session_drop S) (scratch_accepted ru) (ru_shared ru);
     (sh, accepted, out) \<leftarrow> poll_locked S W ord now sh;
     let (ok, egress_tx) = forward_egress egress_send out (ru_egress_tx ru);
     if \<not> ok
     then Some (ru\<lparr>ru_shared := sh, ru_egress_tx := egress_tx,
                   scratch_accepted := accepted, scratch_egress := []\<rparr>)
     else do {
       (sh, accept_tx) \<leftarrow> for_each (forward_session S accept_send) accepted (sh, ru_accept_tx ru);
       Some (ru\<lparr>ru_shared := sh, ru_egress_tx := egress_tx, ru_accept_tx := accept_tx,
                scratch_accepted := [], scratch_egress := []\<rparr>)
     }
   }"

section \<open>The loop around the poll cycle\<close>

definition queue_ingress ::
    "ingress_packet \<Rightarrow> ('i, 's, 't) shared \<Rightarrow> ('i, 's, 't) shared" where
  "queue_ingress pkt sh =
     (case core_slot (sh_core sh) (ig_interface pkt) of
        Some slot \<Rightarrow>
          sh\<lparr>sh_core := put_slot (ig_interface pkt)
               (slot\<lparr>device := push_ingress (ig_data pkt) (device slot)\<rparr>) (sh_core sh)\<rparr>
      | None \<Rightarrow> sh)"

definition min_option :: "std_duration option list \<Rightarrow> std_duration option" where
  "min_option ds =
     (case List.map_filter (\<lambda>d. d) ds of [] \<Rightarrow> None | x # xs \<Rightarrow> Some (fold min xs x))"

definition next_poll_delay ::
    "('i, 's, 't, 'u, 'x) smoltcp_scheme \<Rightarrow> instant \<Rightarrow> ('i, 's, 't) shared \<Rightarrow>
     std_duration option \<times> ('i, 's, 't) shared" where
  "next_poll_delay S now sh =
     (let c = sh_core sh;
          polled = map (\<lambda>slot. iface_poll_delay S now (iface slot) (sockets slot)) (slots c);
          slots' = map2 (\<lambda>slot p. slot\<lparr>iface := fst p\<rparr>) (slots c) polled
      in (min_option (map (\<lambda>p. map_option (duration_into_std S) (snd p)) polled),
          sh\<lparr>sh_core := c\<lparr>slots := slots'\<rparr>\<rparr>))"

definition sleep_for :: "std_duration option \<Rightarrow> std_duration" where
  "sleep_for delay =
     (case delay of
        Some d \<Rightarrow> if d \<noteq> 0 then d else duration_from_secs 3600
      | None \<Rightarrow> duration_from_secs 3600)"

text \<open>
  One iteration of \<open>run\<close>: what \<open>select!\<close> woke up on (a notification, the ingress channel, the timer),
  then whatever else the ingress channel holds, then a poll cycle. \<open>None\<close> inside the result is the
  \<open>return\<close> on a closed ingress channel.
\<close>

datatype wake = WakeNotify | WakeIngress "ingress_packet option" | WakeSleep

definition run_iteration ::
    "('i, 's, 't, 'u, 'x) smoltcp_scheme \<Rightarrow> wire \<Rightarrow> ('e \<Rightarrow> egress_packet \<Rightarrow> 'e option) \<Rightarrow>
     ('a \<Rightarrow> session \<Rightarrow> 'a option) \<Rightarrow> iter_order \<Rightarrow> instant \<Rightarrow> instant \<Rightarrow> wake \<Rightarrow> ingress_packet list \<Rightarrow>
     ('i, 's, 't, 'e, 'a) runner \<Rightarrow> ('i, 's, 't, 'e, 'a) runner option option" where
  "run_iteration S W egress_send accept_send ord t now wake queued ru =
     (let sh = snd (next_poll_delay S t (ru_shared ru));
          woken = (case wake of
                     WakeNotify \<Rightarrow> Some []
                   | WakeIngress (Some pkt) \<Rightarrow> Some [pkt]
                   | WakeIngress None \<Rightarrow> None
                   | WakeSleep \<Rightarrow> Some [])
      in case woken of
           None \<Rightarrow> Some None
         | Some pkts \<Rightarrow> do {
             let sh = fold queue_ingress (pkts @ queued) sh;
             ru \<leftarrow> poll_once S W egress_send accept_send ord now (ru\<lparr>ru_shared := sh\<rparr>);
             Some (Some (ru\<lparr>ru_shared := notify_poll_done (ru_shared ru)\<rparr>))
           })"

text \<open>
  Forwarding the packets of a poll keeps their order: it sends a prefix of them, all of them if no send
  fails, and it stops at the first packet that cannot be sent.
\<close>

lemma forward_egress_prefix:
  "case forward_egress egress_send pkts ch of
     (ok, ch') \<Rightarrow>
       if ok then for_each (\<lambda>pkt ch. egress_send ch pkt) pkts ch = Some ch'
       else \<exists>n. n < length pkts \<and> for_each (\<lambda>pkt ch. egress_send ch pkt) (take n pkts) ch = Some ch' \<and>
         egress_send ch' (pkts ! n) = None"
proof (induction pkts arbitrary: ch)
  case (Cons pkt pkts)
  show ?case
  proof (cases "egress_send ch pkt")
    case None
    then show ?thesis by (auto intro!: exI [of _ 0])
  next
    case (Some ch1)
    show ?thesis
    proof (cases "forward_egress egress_send pkts ch1")
      case (Pair ok ch')
      show ?thesis
      proof (cases ok)
        case False
        then obtain n where "n < length pkts" "for_each (\<lambda>pkt ch. egress_send ch pkt) (take n pkts) ch1 = Some ch'"
          "egress_send ch' (pkts ! n) = None" using Cons [of ch1] Pair by auto
        then show ?thesis using Pair Some False by (auto intro!: exI [of _ "Suc n"])
      qed (use Cons [of ch1] Pair Some in auto)
    qed
  qed
qed simp

end
