(* ===== verification/Core_Invariant.thy ===== *)
theory Core_Invariant
  imports Runner
begin

text \<open>
  The invariant of the shared state, and the primitive state changes it survives: writes to sockets,
  devices and interfaces, registering and removing a TCP entry, registering and removing a UDP
  session, and changes to the contents of the datagram queues. The operations of the runner and of
  the streams are compositions of these.

  \<open>debt\<close> is what is still charged to the buffer budget for sockets already removed: the post-pass
  collects the bytes to give back and releases them at its end.
\<close>

section \<open>Sockets by interface and handle\<close>

definition sock_at ::
    "('i, 's, 't, 'u, 'x) smoltcp_scheme \<Rightarrow> ('i, 's, 't) core \<Rightarrow> interface_id \<Rightarrow> socket_handle \<Rightarrow>
     ('t, 'u) socket option" where
  "sock_at S c i h = (case core_slot c i of None \<Rightarrow> None | Some slot \<Rightarrow> ss_get S (sockets slot) h)"

definition kind_at ::
    "('i, 's, 't, 'u, 'x) smoltcp_scheme \<Rightarrow> ('i, 's, 't) core \<Rightarrow> interface_id \<Rightarrow> socket_handle \<Rightarrow>
     socket_kind option" where
  "kind_at S c i h = map_option kind_of (sock_at S c i h)"

lemma core_slot_manager [simp]: "core_slot (c\<lparr>manager := m\<rparr>) i = core_slot c i"
  by (simp add: core_slot_def)

lemma core_slot_buffer_bytes [simp]: "core_slot (c\<lparr>buffer_bytes := b\<rparr>) i = core_slot c i"
  by (simp add: core_slot_def)

lemma core_slot_cong: "slots c' = slots c \<Longrightarrow> core_slot c' i = core_slot c i"
  by (simp add: core_slot_def)

lemma sock_at_cong: "slots c' = slots c \<Longrightarrow> sock_at S c' i h = sock_at S c i h"
  by (simp add: sock_at_def core_slot_def)

lemma kind_at_frame [simp]:
  "kind_at S (c\<lparr>manager := m\<rparr>) i h = kind_at S c i h"
  "kind_at S (c\<lparr>buffer_bytes := b\<rparr>) i h = kind_at S c i h"
  by (simp_all add: kind_at_def sock_at_def)

lemma sock_at_slot: "core_slot c i = Some slot \<Longrightarrow> sock_at S c i h = ss_get S (sockets slot) h"
  by (simp add: sock_at_def)

lemma sock_at_put_slot:
  "slot_id s = i \<Longrightarrow> core_slot c i \<noteq> None \<Longrightarrow>
    sock_at S (put_slot i s c) j h = (if j = i then ss_get S (sockets s) h else sock_at S c j h)"
  by (simp add: sock_at_def core_slot_put_slot split: option.splits)

section \<open>Changes that keep the shape of the state\<close>

definition slot_meta :: "('i, 's, 't) interface_slot \<Rightarrow> interface_id \<times> usize \<times> usize \<times> usize \<times> 't list" where
  "slot_meta s = (slot_id s, slot_mtu s, slot_tcp_buffer_size s, slot_tcp_pool_max s, tcp_pool s)"

definition same_shape ::
    "('i, 's, 't, 'u, 'x) smoltcp_scheme \<Rightarrow> ('i, 's, 't) core \<Rightarrow> ('i, 's, 't) core \<Rightarrow> bool" where
  "same_shape S c c' \<longleftrightarrow>
     config c' = config c \<and> manager c' = manager c \<and> buffer_bytes c' = buffer_bytes c \<and>
     map slot_meta (slots c') = map slot_meta (slots c) \<and>
     (\<forall>i h. kind_at S c' i h = kind_at S c i h)"

lemma same_shape_refl [simp]: "same_shape S c c"
  by (simp add: same_shape_def)

lemma same_shape_trans: "same_shape S a b \<Longrightarrow> same_shape S b c \<Longrightarrow> same_shape S a c"
  by (simp add: same_shape_def)

lemma slot_meta_id: "slot_meta a = slot_meta b \<Longrightarrow> slot_id a = slot_id b"
  by (simp add: slot_meta_def)

lemma map_meta_put_first:
  "find (\<lambda>x. slot_id x = i) xs = Some s \<Longrightarrow> slot_meta s' = slot_meta s \<Longrightarrow>
    map slot_meta (put_first i s' xs) = map slot_meta xs"
  by (induction xs) (auto split: if_splits)

lemma same_shape_put_slot:
  assumes "core_slot c i = Some s" and "slot_meta s' = slot_meta s"
    and "\<And>h. map_option kind_of (ss_get S (sockets s') h) = map_option kind_of (ss_get S (sockets s) h)"
  shows "same_shape S c (put_slot i s' c)"
proof -
  have "slot_id s' = i" using assms(1,2) core_slot_Some(2) slot_meta_id by blast
  then have "kind_at S (put_slot i s' c) j h = kind_at S c j h" for j h
    using assms by (simp add: kind_at_def sock_at_put_slot sock_at_slot)
  moreover have "map slot_meta (slots (put_slot i s' c)) = map slot_meta (slots c)"
    using assms by (simp add: put_slot_def map_meta_put_first core_slot_def)
  ultimately show ?thesis by (simp add: same_shape_def)
qed

lemma same_shape_put_socket:
  assumes "socket_set_laws S" and "core_slot c i = Some s"
    and "ss_get S (sockets s) h = Some old" and "kind_of sock = kind_of old"
  shows "same_shape S c (put_socket S s h sock c)"
proof -
  have i: "slot_id s = i" using assms(2) by (rule core_slot_Some)
  show ?thesis unfolding put_socket_def i
    by (rule same_shape_put_slot [OF assms(2)])
      (use assms in \<open>auto simp: slot_meta_def socket_set_lawsD(4)\<close>)
qed

text \<open>A change applied to every slot.\<close>

lemma find_map_slot:
  assumes "\<And>s. slot_id (f s) = slot_id s"
  shows "find (\<lambda>x. slot_id x = i) (map f xs) = map_option f (find (\<lambda>x. slot_id x = i) xs)"
  by (induction xs) (auto simp: assms)

lemma same_shape_map_slots:
  assumes meta: "\<And>s. slot_meta (f s) = slot_meta s"
    and kind: "\<And>s h. map_option kind_of (ss_get S (sockets (f s)) h) =
      map_option kind_of (ss_get S (sockets s) h)"
  shows "same_shape S c (c\<lparr>slots := map f (slots c)\<rparr>)"
proof -
  have id_eq: "slot_id (f s) = slot_id s" for s
    using meta by (rule slot_meta_id)
  have "kind_at S (c\<lparr>slots := map f (slots c)\<rparr>) i h = kind_at S c i h" for i h
    by (simp add: kind_at_def sock_at_def core_slot_def find_map_slot [OF id_eq] kind split: option.split)
  moreover have "map slot_meta (map f (slots c)) = map slot_meta (slots c)"
    by (simp add: meta)
  ultimately show ?thesis by (simp add: same_shape_def)
qed

section \<open>The invariant\<close>

definition tcp_cost :: "netstack_config \<Rightarrow> nat" where
  "tcp_cost cfg = 2 * unat (cfg_tcp_buffer_size cfg)"

definition udp_cost :: "netstack_config \<Rightarrow> nat" where
  "udp_cost cfg = max (unat (cfg_udp_buffer_packets cfg)) 1 * 64 +
     max (unat (cfg_udp_buffer_bytes cfg)) (unat (cfg_mtu cfg))"

text \<open>The most the sessions can be charged together fits a \<open>usize\<close>.\<close>

definition config_ok :: "netstack_config \<Rightarrow> bool" where
  "config_ok cfg \<longleftrightarrow>
     tcp_cost cfg * unat (cfg_tcp_max_connections cfg) +
     udp_cost cfg * unat (cfg_udp_max_sessions cfg) < 2 ^ 64"

definition slots_wf :: "('i, 's, 't) core \<Rightarrow> bool" where
  "slots_wf c \<longleftrightarrow>
     distinct (map slot_id (slots c)) \<and>
     (\<forall>s \<in> set (slots c).
        slot_mtu s = cfg_mtu (config c) \<and>
        slot_tcp_buffer_size s = cfg_tcp_buffer_size (config c) \<and>
        slot_tcp_pool_max s = cfg_tcp_pool_size (config c) \<and>
        length (tcp_pool s) \<le> unat (cfg_tcp_pool_size (config c)))"

definition tcp_wf :: "('i, 's, 't, 'u, 'x) smoltcp_scheme \<Rightarrow> ('i, 's, 't) core \<Rightarrow> bool" where
  "tcp_wf S c \<longleftrightarrow>
     (let tcp = mgr_tcp (manager c) in
      hm_wf tcp \<and>
      length tcp \<le> unat (cfg_tcp_max_connections (config c)) \<and>
      (\<forall>k e. hm_get tcp k = Some e \<longrightarrow>
         sk_proto k = ProtoTcp \<and>
         kind_at S c (sk_interface k) (te_handle e) = Some TcpKind \<and>
         (te_orphaned e \<longrightarrow> te_state e \<noteq> TcpPending)) \<and>
      (\<forall>k e k' e'. hm_get tcp k = Some e \<longrightarrow> hm_get tcp k' = Some e' \<longrightarrow>
         sk_interface k = sk_interface k' \<longrightarrow> te_handle e = te_handle e' \<longrightarrow> k = k'))"

definition sessions_on :: "(session_key, udp_entry) hash_map \<Rightarrow> dst_key \<Rightarrow> (session_key \<times> udp_entry) list" where
  "sessions_on udp dk = filter (\<lambda>(k, e). (sk_interface k, sk_dst k) = dk) udp"

definition udp_wf ::
    "('i, 's, 't, 'u, 'x) smoltcp_scheme \<Rightarrow> ('i, 's, 't) core \<Rightarrow> udp_queue list \<Rightarrow> bool" where
  "udp_wf S c qs \<longleftrightarrow>
     (let udp = mgr_udp (manager c); dst = udp_dst_sockets (manager c) in
      hm_wf udp \<and> hm_wf dst \<and>
      length udp \<le> unat (cfg_udp_max_sessions (config c)) \<and>
      (\<forall>k e. hm_get udp k = Some e \<longrightarrow>
         sk_proto k = ProtoUdp \<and> ue_queue e < length qs \<and> \<not> is_closed (qs ! ue_queue e) \<and>
         map_option fst (hm_get dst (sk_interface k, sk_dst k)) = Some (ue_socket e)) \<and>
      (\<forall>k e k' e'. hm_get udp k = Some e \<longrightarrow> hm_get udp k' = Some e' \<longrightarrow>
         ue_queue e = ue_queue e' \<longrightarrow> k = k') \<and>
      (\<forall>i d h n. hm_get dst (i, d) = Some (h, n) \<longrightarrow>
         kind_at S c i h = Some UdpKind \<and>
         0 < unat n \<and> unat n = length (sessions_on udp (i, d))) \<and>
      (\<forall>i d d' h n n'. hm_get dst (i, d) = Some (h, n) \<longrightarrow> hm_get dst (i, d') = Some (h, n') \<longrightarrow> d = d'))"

definition accounted :: "nat \<Rightarrow> ('i, 's, 't) core \<Rightarrow> bool" where
  "accounted debt c \<longleftrightarrow>
     unat (buffer_bytes c) =
       tcp_cost (config c) * length (mgr_tcp (manager c)) +
       udp_cost (config c) * length (udp_dst_sockets (manager c)) + debt"

definition within_cap :: "('i, 's, 't) core \<Rightarrow> bool" where
  "within_cap c \<longleftrightarrow> (\<forall>l. cfg_max_buffer_bytes (config c) = Some l \<longrightarrow> buffer_bytes c \<le> l)"

definition core_inv ::
    "('i, 's, 't, 'u, 'x) smoltcp_scheme \<Rightarrow> nat \<Rightarrow> ('i, 's, 't) core \<Rightarrow> udp_queue list \<Rightarrow> bool" where
  "core_inv S debt c qs \<longleftrightarrow>
     config_ok (config c) \<and> slots_wf c \<and> tcp_wf S c \<and> udp_wf S c qs \<and> accounted debt c \<and> within_cap c"

text \<open>
  The session values that exist outside the registry (in the accept channel, or held by the
  application): each TCP stream owns its entry, and a UDP session whose queue is open is the one its
  entry was created for; conversely every entry whose session was handed out is owned.
\<close>

definition tcp_owned :: "session list \<Rightarrow> session_manager \<Rightarrow> bool" where
  "tcp_owned ss m \<longleftrightarrow>
     (\<forall>st. SessionTcp st \<in> set ss \<longrightarrow> ts_interface st = sk_interface (ts_key st) \<and>
        (\<exists>e. hm_get (mgr_tcp m) (ts_key st) = Some e \<and> te_handle e = ts_handle st \<and>
           \<not> te_orphaned e \<and> te_state e \<noteq> TcpPending)) \<and>
     (\<forall>k e. hm_get (mgr_tcp m) k = Some e \<longrightarrow> \<not> te_orphaned e \<longrightarrow> te_state e \<noteq> TcpPending \<longrightarrow>
        (\<exists>st. SessionTcp st \<in> set ss \<and> ts_key st = k)) \<and>
     distinct [ts_key st. SessionTcp st \<leftarrow> ss]"

definition udp_owned :: "session list \<Rightarrow> session_manager \<Rightarrow> udp_queue list \<Rightarrow> bool" where
  "udp_owned ss m qs \<longleftrightarrow>
     (\<forall>us. SessionUdp us \<in> set ss \<longrightarrow>
        us_interface us = sk_interface (us_key us) \<and> us_queue us < length qs \<and>
        (\<not> is_closed (qs ! us_queue us) \<longrightarrow>
          (\<exists>e. hm_get (mgr_udp m) (us_key us) = Some e \<and> ue_socket e = us_socket us \<and>
             ue_queue e = us_queue us))) \<and>
     (\<forall>k e. hm_get (mgr_udp m) k = Some e \<longrightarrow>
        (\<exists>us. SessionUdp us \<in> set ss \<and> us_key us = k \<and> us_queue us = ue_queue e))"

definition good ::
    "('i, 's, 't, 'u, 'x) smoltcp_scheme \<Rightarrow> nat \<Rightarrow> session list \<Rightarrow> ('i, 's, 't) core \<Rightarrow>
     udp_queue list \<Rightarrow> bool" where
  "good S debt ss c qs \<longleftrightarrow>
     core_inv S debt c qs \<and> tcp_owned ss (manager c) \<and> udp_owned ss (manager c) qs"

lemma tcp_wfD:
  assumes "tcp_wf S c"
  shows "hm_wf (mgr_tcp (manager c))"
    and "length (mgr_tcp (manager c)) \<le> unat (cfg_tcp_max_connections (config c))"
    and "hm_get (mgr_tcp (manager c)) k = Some e \<Longrightarrow> sk_proto k = ProtoTcp"
    and "hm_get (mgr_tcp (manager c)) k = Some e \<Longrightarrow>
      kind_at S c (sk_interface k) (te_handle e) = Some TcpKind"
    and "hm_get (mgr_tcp (manager c)) k = Some e \<Longrightarrow> te_orphaned e \<Longrightarrow> te_state e \<noteq> TcpPending"
    and "hm_get (mgr_tcp (manager c)) k = Some e \<Longrightarrow> hm_get (mgr_tcp (manager c)) k' = Some e' \<Longrightarrow>
      sk_interface k = sk_interface k' \<Longrightarrow> te_handle e = te_handle e' \<Longrightarrow> k = k'"
  using assms unfolding tcp_wf_def Let_def by blast+

lemma udp_wfD:
  assumes "udp_wf S c qs"
  shows "hm_wf (mgr_udp (manager c))" and "hm_wf (udp_dst_sockets (manager c))"
    and "length (mgr_udp (manager c)) \<le> unat (cfg_udp_max_sessions (config c))"
    and "hm_get (mgr_udp (manager c)) k = Some e \<Longrightarrow> sk_proto k = ProtoUdp"
    and "hm_get (mgr_udp (manager c)) k = Some e \<Longrightarrow> ue_queue e < length qs"
    and "hm_get (mgr_udp (manager c)) k = Some e \<Longrightarrow> \<not> is_closed (qs ! ue_queue e)"
    and "hm_get (mgr_udp (manager c)) k = Some e \<Longrightarrow>
      map_option fst (hm_get (udp_dst_sockets (manager c)) (sk_interface k, sk_dst k)) = Some (ue_socket e)"
    and "hm_get (mgr_udp (manager c)) k = Some e \<Longrightarrow> hm_get (mgr_udp (manager c)) k' = Some e' \<Longrightarrow>
      ue_queue e = ue_queue e' \<Longrightarrow> k = k'"
    and "hm_get (udp_dst_sockets (manager c)) (i, d) = Some (h, n) \<Longrightarrow> kind_at S c i h = Some UdpKind"
    and "hm_get (udp_dst_sockets (manager c)) (i, d) = Some (h, n) \<Longrightarrow> 0 < unat n"
    and "hm_get (udp_dst_sockets (manager c)) (i, d) = Some (h, n) \<Longrightarrow>
      unat n = length (sessions_on (mgr_udp (manager c)) (i, d))"
    and "hm_get (udp_dst_sockets (manager c)) (i, d) = Some (h, n) \<Longrightarrow>
      hm_get (udp_dst_sockets (manager c)) (i, d') = Some (h, n') \<Longrightarrow> d = d'"
  using assms unfolding udp_wf_def Let_def by blast+

lemma tcp_wfI:
  assumes "hm_wf (mgr_tcp (manager c))"
    and "length (mgr_tcp (manager c)) \<le> unat (cfg_tcp_max_connections (config c))"
    and "\<And>k e. hm_get (mgr_tcp (manager c)) k = Some e \<Longrightarrow> sk_proto k = ProtoTcp"
    and "\<And>k e. hm_get (mgr_tcp (manager c)) k = Some e \<Longrightarrow>
      kind_at S c (sk_interface k) (te_handle e) = Some TcpKind"
    and "\<And>k e. hm_get (mgr_tcp (manager c)) k = Some e \<Longrightarrow> te_orphaned e \<Longrightarrow> te_state e \<noteq> TcpPending"
    and "\<And>k e k' e'. hm_get (mgr_tcp (manager c)) k = Some e \<Longrightarrow>
      hm_get (mgr_tcp (manager c)) k' = Some e' \<Longrightarrow>
      sk_interface k = sk_interface k' \<Longrightarrow> te_handle e = te_handle e' \<Longrightarrow> k = k'"
  shows "tcp_wf S c"
  unfolding tcp_wf_def Let_def by (intro conjI allI impI) (rule assms; assumption)+

lemma udp_wfI:
  assumes "hm_wf (mgr_udp (manager c))" and "hm_wf (udp_dst_sockets (manager c))"
    and "length (mgr_udp (manager c)) \<le> unat (cfg_udp_max_sessions (config c))"
    and "\<And>k e. hm_get (mgr_udp (manager c)) k = Some e \<Longrightarrow> sk_proto k = ProtoUdp"
    and "\<And>k e. hm_get (mgr_udp (manager c)) k = Some e \<Longrightarrow>
      ue_queue e < length qs \<and> \<not> is_closed (qs ! ue_queue e)"
    and "\<And>k e. hm_get (mgr_udp (manager c)) k = Some e \<Longrightarrow>
      map_option fst (hm_get (udp_dst_sockets (manager c)) (sk_interface k, sk_dst k)) = Some (ue_socket e)"
    and "\<And>k e k' e'. hm_get (mgr_udp (manager c)) k = Some e \<Longrightarrow>
      hm_get (mgr_udp (manager c)) k' = Some e' \<Longrightarrow> ue_queue e = ue_queue e' \<Longrightarrow> k = k'"
    and "\<And>i d h n. hm_get (udp_dst_sockets (manager c)) (i, d) = Some (h, n) \<Longrightarrow>
      kind_at S c i h = Some UdpKind"
    and "\<And>i d h n. hm_get (udp_dst_sockets (manager c)) (i, d) = Some (h, n) \<Longrightarrow>
      0 < unat n \<and> unat n = length (sessions_on (mgr_udp (manager c)) (i, d))"
    and "\<And>i d d' h n n'. hm_get (udp_dst_sockets (manager c)) (i, d) = Some (h, n) \<Longrightarrow>
      hm_get (udp_dst_sockets (manager c)) (i, d') = Some (h, n') \<Longrightarrow> d = d'"
  shows "udp_wf S c qs"
  unfolding udp_wf_def Let_def
  by (intro conjI allI impI)
    (rule assms assms(5,9) [THEN conjunct1] assms(5,9) [THEN conjunct2]; assumption)+

section \<open>Changes of shape-preserving kind and changes to queue contents\<close>

lemma slots_wf_meta:
  fixes c c' :: "('i, 's, 't) core"
  assumes "map slot_meta (slots c') = map slot_meta (slots c)" and "config c' = config c"
    and "slots_wf c"
  shows "slots_wf c'"
proof -
  let ?P = "\<lambda>(i, mtu, size, pmax, pool). mtu = cfg_mtu (config c) \<and>
    size = cfg_tcp_buffer_size (config c) \<and> pmax = cfg_tcp_pool_size (config c) \<and>
    length pool \<le> unat (cfg_tcp_pool_size (config c))"
  have wf: "slots_wf d \<longleftrightarrow> distinct (map fst (map slot_meta (slots d))) \<and>
      (\<forall>x \<in> set (map slot_meta (slots d)). ?P x)" if "config d = config c" for d :: "('i, 's, 't) core"
    using that by (auto simp: slots_wf_def slot_meta_def comp_def)
  show ?thesis
    unfolding wf [OF assms(2)] assms(1) using assms(3) wf [of c] by blast
qed

lemma core_inv_same_shape:
  assumes "same_shape S c c'" and "core_inv S debt c qs"
  shows "core_inv S debt c' qs"
  using assms slots_wf_meta [of c' c]
  unfolding same_shape_def core_inv_def tcp_wf_def udp_wf_def accounted_def within_cap_def by simp

lemma good_same_shape:
  assumes "same_shape S c c'" and "good S debt ss c qs"
  shows "good S debt ss c' qs"
  using assms core_inv_same_shape [OF assms(1)] by (auto simp: good_def same_shape_def)

definition same_queues :: "udp_queue list \<Rightarrow> udp_queue list \<Rightarrow> bool" where
  "same_queues qs qs' \<longleftrightarrow>
     length qs' = length qs \<and> (\<forall>i < length qs. is_closed (qs' ! i) = is_closed (qs ! i))"

lemma same_queues_refl [simp]: "same_queues qs qs"
  by (simp add: same_queues_def)

lemma same_queues_update:
  "is_closed q = is_closed (qs ! i) \<Longrightarrow> same_queues qs (qs[i := q])"
  by (cases "i < length qs") (auto simp: same_queues_def nth_list_update list_update_beyond)

lemma udp_wf_same_queues: "same_queues qs qs' \<Longrightarrow> udp_wf S c qs \<Longrightarrow> udp_wf S c qs'"
  by (rule udp_wfI) (auto dest: udp_wfD simp: same_queues_def)

lemma good_same_queues: "same_queues qs qs' \<Longrightarrow> good S debt ss c qs \<Longrightarrow> good S debt ss c qs'"
  using udp_wf_same_queues [of qs qs' S c]
  by (auto simp: good_def core_inv_def udp_owned_def same_queues_def)

section \<open>Counting sessions and sockets\<close>

lemma length_sessions_on_insert:
  assumes "hm_get udp k = None"
  shows "length (sessions_on (hm_insert k e udp) dk) =
    length (sessions_on udp dk) + (if (sk_interface k, sk_dst k) = dk then 1 else 0)"
  using assms by (simp add: sessions_on_def hm_insert_fresh)

lemma length_sessions_on_update:
  assumes "hm_get udp k \<noteq> None"
  shows "length (sessions_on (hm_insert k e udp) dk) = length (sessions_on udp dk)"
  using assms by (induction udp) (auto simp: sessions_on_def split: if_splits)

lemma length_sessions_on_remove:
  assumes "hm_wf udp" and "hm_get udp k = Some e"
  shows "length (sessions_on udp dk) =
    length (sessions_on (hm_remove k udp) dk) + (if (sk_interface k, sk_dst k) = dk then 1 else 0)"
  using assms
proof (induction udp)
  case (Cons x udp)
  have "hm_remove k udp = udp" if "k \<notin> fst ` set udp" using that by simp
  with Cons show ?case by (cases x) (auto simp: sessions_on_def split: if_splits)
qed simp

lemma sessions_on_nonempty:
  "hm_get udp k = Some e \<Longrightarrow> 0 < length (sessions_on udp (sk_interface k, sk_dst k))"
  by (auto simp: sessions_on_def filter_empty_conv dest!: map_of_SomeD)

lemma dst_sockets_le_sessions:
  assumes "udp_wf S c qs"
  shows "length (udp_dst_sockets (manager c)) \<le> length (mgr_udp (manager c))"
proof -
  let ?udp = "mgr_udp (manager c)" and ?dst = "udp_dst_sockets (manager c)"
  have "fst x \<in> (\<lambda>(k, e). (sk_interface k, sk_dst k)) ` set ?udp" if "x \<in> set ?dst" for x
  proof -
    obtain i d h n where x: "x = ((i, d), h, n)" by (metis prod.exhaust)
    from that have get: "hm_get ?dst (i, d) = Some (h, n)"
      unfolding x by (rule map_of_is_SomeI [OF udp_wfD(2) [OF assms]])
    from udp_wfD(10) [OF assms get] udp_wfD(11) [OF assms get]
    have "0 < length (sessions_on ?udp (i, d))" by linarith
    then obtain y where "y \<in> set (sessions_on ?udp (i, d))" by (meson length_pos_if_in_set nth_mem)
    then obtain k e where "(k, e) \<in> set ?udp" "(sk_interface k, sk_dst k) = (i, d)"
      by (auto simp: sessions_on_def)
    then show ?thesis by (auto simp: x intro!: image_eqI [of _ _ "(k, e)"])
  qed
  then have "card (fst ` set ?dst) \<le> card ((\<lambda>(k, e). (sk_interface k, sk_dst k)) ` set ?udp)"
    by (intro card_mono) auto
  also have "\<dots> \<le> length ?udp" by (rule order_trans [OF card_image_le card_length]) simp
  finally show ?thesis
    using udp_wfD(2) [OF assms] distinct_card [of "map fst ?dst"] by simp
qed

end
