(* ===== verification/Core_Changes.thy ===== *)
theory Core_Changes
  imports Core_Invariant
begin

text \<open>
  The primitive changes of the registry and what they do to the invariant: a TCP entry is added,
  updated or removed; a UDP session is added or removed. Each lemma is about any state \<open>c'\<close> that
  differs from \<open>c\<close> in the way described, so that it serves every operation that makes the change.
\<close>

section \<open>Reading the invariant\<close>

lemma goodD:
  assumes "good S debt ss c qs"
  shows "config_ok (config c)" and "slots_wf c" and "tcp_wf S c" and "udp_wf S c qs"
    and "accounted debt c" and "within_cap c" and "tcp_owned ss (manager c)"
    and "udp_owned ss (manager c) qs"
  using assms by (auto simp: good_def core_inv_def)

lemma goodI:
  assumes "config_ok (config c)" and "slots_wf c" and "tcp_wf S c" and "udp_wf S c qs"
    and "accounted debt c" and "within_cap c" and "tcp_owned ss (manager c)"
    and "udp_owned ss (manager c) qs"
  shows "good S debt ss c qs"
  using assms by (simp add: good_def core_inv_def)

text \<open>
  \<open>udp_wf\<close> depends on the slots only through the kinds of the shared UDP sockets, \<open>tcp_wf\<close> only through
  those of the TCP sockets.
\<close>

lemma udp_wf_cong:
  assumes "udp_wf S c qs" and "config c' = config c"
    and "mgr_udp (manager c') = mgr_udp (manager c)"
    and "udp_dst_sockets (manager c') = udp_dst_sockets (manager c)"
    and "\<And>i h. kind_at S c i h = Some UdpKind \<Longrightarrow> kind_at S c' i h = Some UdpKind"
  shows "udp_wf S c' qs"
  by (rule udp_wfI) (use assms(2-) udp_wfD [OF assms(1)] in \<open>auto, (blast+)?\<close>)

lemma tcp_wf_cong:
  assumes "tcp_wf S c" and "config c' = config c"
    and "mgr_tcp (manager c') = mgr_tcp (manager c)"
    and "\<And>i h. kind_at S c i h = Some TcpKind \<Longrightarrow> kind_at S c' i h = Some TcpKind"
  shows "tcp_wf S c'"
  by (rule tcp_wfI) (use assms(2-) tcp_wfD [OF assms(1)] in \<open>auto, (blast+)?\<close>)

section \<open>TCP entries\<close>

lemma good_tcp_insert:
  assumes good: "good S debt ss c qs"
    and fresh: "hm_get (mgr_tcp (manager c)) k = None" "sk_proto k = ProtoTcp"
    and room: "length (mgr_tcp (manager c)) < unat (cfg_tcp_max_connections (config c))"
    and c': "config c' = config c" "slots_wf c'" "within_cap c'"
      "unat (buffer_bytes c') = unat (buffer_bytes c) + tcp_cost (config c)"
      "manager c' = (manager c)\<lparr>mgr_tcp := hm_insert k e (mgr_tcp (manager c))\<rparr>"
    and e: "te_state e = TcpPending" "\<not> te_orphaned e"
    and new: "kind_at S c (sk_interface k) (te_handle e) = None"
    and kinds: "\<And>i h. kind_at S c' i h =
      (if i = sk_interface k \<and> h = te_handle e then Some TcpKind else kind_at S c i h)"
  shows "good S debt ss c' qs"
proof (rule goodI)
  note wf = tcp_wfD [OF goodD(3) [OF good]]
  show "config_ok (config c')" using goodD(1) [OF good] c'(1) by simp
  show "slots_wf c'" and "within_cap c'" by (fact c')+
  show "accounted debt c'"
    using goodD(5) [OF good] c' fresh(1) by (simp add: accounted_def hm_len_insert algebra_simps)
  have old: "sk_interface k' \<noteq> sk_interface k \<or> te_handle e' \<noteq> te_handle e"
    if "hm_get (mgr_tcp (manager c)) k' = Some e'" for k' e'
    using wf(4) [OF that] new by auto
  show "tcp_wf S c'"
  proof (rule tcp_wfI)
    show "hm_wf (mgr_tcp (manager c'))" using wf(1) c'(5) by simp
    show "length (mgr_tcp (manager c')) \<le> unat (cfg_tcp_max_connections (config c'))"
      using room fresh(1) c'(1,5) by (simp add: hm_len_insert)
    fix k1 e1 k2 e2
    assume "hm_get (mgr_tcp (manager c')) k1 = Some e1" "hm_get (mgr_tcp (manager c')) k2 = Some e2"
      "sk_interface k1 = sk_interface k2" "te_handle e1 = te_handle e2"
    then show "k1 = k2" using wf(6) [of k1 e1 k2 e2] old [of k1 e1] old [of k2 e2]
      by (auto simp: c'(5) split: if_splits)
  qed (use wf(3-5) old fresh e kinds in \<open>auto simp: c'(5) split: if_splits\<close>)
  show "udp_wf S c' qs"
    by (rule udp_wf_cong [OF goodD(4) [OF good]]) (use c' kinds new in auto)
  show "tcp_owned ss (manager c')"
    using goodD(7) [OF good] e fresh(1) by (auto simp: tcp_owned_def c'(5))
  show "udp_owned ss (manager c') qs"
    using goodD(8) [OF good] by (simp add: udp_owned_def c'(5))
qed

lemma good_tcp_update:
  assumes good: "good S debt ss c qs"
    and get: "hm_get (mgr_tcp (manager c)) k = Some e"
    and e': "te_handle e' = te_handle e" "te_orphaned e' \<Longrightarrow> te_state e' \<noteq> TcpPending"
    and m': "m' = (manager c)\<lparr>mgr_tcp := hm_insert k e' (mgr_tcp (manager c))\<rparr>"
    and owned: "tcp_owned ss' m'" "udp_owned ss' m' qs"
  shows "good S debt ss' (c\<lparr>manager := m'\<rparr>) qs"
proof (rule goodI)
  let ?c = "c\<lparr>manager := m'\<rparr>"
  note wf = tcp_wfD [OF goodD(3) [OF good]]
  show "tcp_wf S ?c"
  proof (rule tcp_wfI)
    show "length (mgr_tcp (manager ?c)) \<le> unat (cfg_tcp_max_connections (config ?c))"
      using wf(2) get m' by (simp add: hm_len_insert)
    fix k1 e1 k2 e2
    assume "hm_get (mgr_tcp (manager ?c)) k1 = Some e1" "hm_get (mgr_tcp (manager ?c)) k2 = Some e2"
      "sk_interface k1 = sk_interface k2" "te_handle e1 = te_handle e2"
    then show "k1 = k2" using wf(6) [OF get] wf(6) [OF _ get] wf(6) e'(1)
      by (auto simp: m' split: if_splits)
  qed (use wf(1-5) get e' in \<open>auto simp: m' split: if_splits\<close>)
  show "udp_wf S ?c qs"
    by (rule udp_wf_cong [OF goodD(4) [OF good]]) (use m' in auto)
  show "accounted debt ?c"
    using goodD(5) [OF good] get by (simp add: accounted_def m' hm_len_insert)
qed (use goodD [OF good] owned in \<open>auto simp: slots_wf_def within_cap_def\<close>)

lemma good_tcp_remove:
  assumes good: "good S debt ss c qs"
    and get: "hm_get (mgr_tcp (manager c)) k = Some e" "te_orphaned e"
    and c': "config c' = config c" "slots_wf c'" "buffer_bytes c' = buffer_bytes c"
      "manager c' = (manager c)\<lparr>mgr_tcp := hm_remove k (mgr_tcp (manager c))\<rparr>"
    and kinds: "\<And>i h. kind_at S c' i h =
      (if i = sk_interface k \<and> h = te_handle e then None else kind_at S c i h)"
  shows "good S (debt + tcp_cost (config c)) ss c' qs"
proof (rule goodI)
  note wf = tcp_wfD [OF goodD(3) [OF good]]
  have len: "length (mgr_tcp (manager c)) = Suc (length (mgr_tcp (manager c')))"
    using hm_len_remove [OF wf(1), of k] get(1) by (cases "mgr_tcp (manager c)") (auto simp: c'(4))
  show "accounted (debt + tcp_cost (config c)) c'"
    using goodD(5) [OF good] c' len by (simp add: accounted_def)
  have other: "sk_interface k' \<noteq> sk_interface k \<or> te_handle e' \<noteq> te_handle e"
    if "hm_get (mgr_tcp (manager c)) k' = Some e'" "k' \<noteq> k" for k' e'
    using wf(6) [OF that(1) get(1)] that(2) by auto
  show "tcp_wf S c'"
  proof (rule tcp_wfI)
    show "length (mgr_tcp (manager c')) \<le> unat (cfg_tcp_max_connections (config c'))"
      using wf(2) len c'(1) by simp
    fix k1 e1 k2 e2
    assume "hm_get (mgr_tcp (manager c')) k1 = Some e1" "hm_get (mgr_tcp (manager c')) k2 = Some e2"
      "sk_interface k1 = sk_interface k2" "te_handle e1 = te_handle e2"
    then show "k1 = k2" using wf(6) [of k1 e1 k2 e2] by (auto simp: c'(4) split: if_splits)
  qed (use wf(1,3-5) other kinds in \<open>auto simp: c'(4) split: if_splits\<close>)
  have "kind_at S c (sk_interface k) (te_handle e) = Some TcpKind" by (rule wf(4) [OF get(1)])
  then show "udp_wf S c' qs"
    by (intro udp_wf_cong [OF goodD(4) [OF good]]) (use c' kinds in auto)
  show "tcp_owned ss (manager c')"
    using goodD(7) [OF good] get by (fastforce simp: tcp_owned_def c'(4))
  show "udp_owned ss (manager c') qs"
    using goodD(8) [OF good] by (simp add: udp_owned_def c'(4))
qed (use goodD [OF good] c' in \<open>auto simp: within_cap_def\<close>)

section \<open>Session values come and go\<close>

lemma tcp_owned_add_udp [simp]: "tcp_owned (ss @ [SessionUdp us]) m = tcp_owned ss m"
  by (simp add: tcp_owned_def)

lemma tcp_keys_remove1_udp:
  "concat (map (\<lambda>s. case s of SessionTcp st \<Rightarrow> [ts_key st] | _ \<Rightarrow> []) (remove1 (SessionUdp us) ss)) =
   concat (map (\<lambda>s. case s of SessionTcp st \<Rightarrow> [ts_key st] | _ \<Rightarrow> []) ss)"
  by (induction ss) auto

lemma tcp_owned_remove_udp [simp]: "tcp_owned (remove1 (SessionUdp us) ss) m = tcp_owned ss m"
  by (simp add: tcp_owned_def tcp_keys_remove1_udp in_set_remove1)

lemma udp_ownedD:
  assumes "udp_owned ss m qs"
  shows "SessionUdp us \<in> set ss \<Longrightarrow> us_interface us = sk_interface (us_key us)"
    and "SessionUdp us \<in> set ss \<Longrightarrow> us_queue us < length qs"
    and "SessionUdp us \<in> set ss \<Longrightarrow> \<not> is_closed (qs ! us_queue us) \<Longrightarrow>
      \<exists>e. hm_get (mgr_udp m) (us_key us) = Some e \<and> ue_socket e = us_socket us \<and> ue_queue e = us_queue us"
    and "hm_get (mgr_udp m) k = Some e \<Longrightarrow>
      \<exists>us. SessionUdp us \<in> set ss \<and> us_key us = k \<and> us_queue us = ue_queue e"
  using assms unfolding udp_owned_def by blast+

lemma udp_owned_remove_udp:
  assumes owned: "udp_owned ss m qs" and none: "hm_get (mgr_udp m) (us_key us) = None"
  shows "udp_owned (remove1 (SessionUdp us) ss) m qs"
  unfolding udp_owned_def
proof (intro conjI allI impI)
  fix k e assume get: "hm_get (mgr_udp m) k = Some e"
  obtain us' where us': "SessionUdp us' \<in> set ss" "us_key us' = k" "us_queue us' = ue_queue e"
    using udp_ownedD(4) [OF owned get] by blast
  with get none have "SessionUdp us' \<noteq> SessionUdp us" by auto
  with us' show "\<exists>us'. SessionUdp us' \<in> set (remove1 (SessionUdp us) ss) \<and> us_key us' = k \<and>
      us_queue us' = ue_queue e"
    using in_set_remove1 by metis
next
  fix us' assume "SessionUdp us' \<in> set (remove1 (SessionUdp us) ss)"
  then have "SessionUdp us' \<in> set ss" using set_remove1_subset by (rule rev_subsetD)
  note D = udp_ownedD(1-3) [OF owned this]
  show "us_interface us' = sk_interface (us_key us')" and "us_queue us' < length qs" by (fact D)+
  assume "\<not> is_closed (qs ! us_queue us')"
  then show "\<exists>e. hm_get (mgr_udp m) (us_key us') = Some e \<and> ue_socket e = us_socket us' \<and>
      ue_queue e = us_queue us'" by (rule D(3))
qed

lemma udp_owned_add:
  assumes owned: "udp_owned ss m qs" and fresh: "hm_get (mgr_udp m) k = None"
    and e: "ue_queue e = length qs"
    and us: "us_interface us = sk_interface k" "us_key us = k" "us_socket us = ue_socket e"
      "us_queue us = length qs"
    and m': "mgr_udp m' = hm_insert k e (mgr_udp m)"
  shows "udp_owned (ss @ [SessionUdp us]) m' (qs @ [udp_queue_new])"
  unfolding udp_owned_def
proof (intro conjI allI impI)
  fix us' assume "SessionUdp us' \<in> set (ss @ [SessionUdp us])"
    and "\<not> is_closed ((qs @ [udp_queue_new]) ! us_queue us')"
  then show "\<exists>e. hm_get (mgr_udp m') (us_key us') = Some e \<and>
      ue_socket e = us_socket us' \<and> ue_queue e = us_queue us'"
    using udp_ownedD(2,3) [OF owned, of us'] us e fresh by (auto simp: m' nth_append)
next
  fix k' e' assume "hm_get (mgr_udp m') k' = Some e'"
  then have "k' = k \<and> e' = e \<or> hm_get (mgr_udp m) k' = Some e'"
    by (auto simp: m' split: if_splits)
  then show "\<exists>us'. SessionUdp us' \<in> set (ss @ [SessionUdp us]) \<and> us_key us' = k' \<and> us_queue us' = ue_queue e'"
  proof
    assume "k' = k \<and> e' = e"
    then show ?thesis using us(2,4) e by (intro exI [of _ us]) simp
  next
    assume "hm_get (mgr_udp m) k' = Some e'"
    then show ?thesis using udp_ownedD(4) [OF owned] by (metis Un_iff set_append)
  qed
qed (use udp_ownedD(1,2) [OF owned] us in \<open>auto simp: less_SucI\<close>)

section \<open>UDP sessions\<close>

text \<open>The reference count of a destination, absent or not, is the number of sessions on it.\<close>

lemma sessions_on_absent:
  assumes "udp_wf S c qs" and "hm_get (udp_dst_sockets (manager c)) dk = None"
  shows "sessions_on (mgr_udp (manager c)) dk = []"
proof -
  note wf = udp_wfD [OF assms(1)]
  have "(sk_interface k, sk_dst k) \<noteq> dk" if "hm_get (mgr_udp (manager c)) k = Some e" for k e
    using wf(7) [OF that] assms(2) by auto
  then show ?thesis using hm_get_in [OF wf(1)] by (auto simp: sessions_on_def filter_empty_conv)
qed

lemma retained_count:
  fixes n :: usize
  assumes "unat n = length (sessions_on udp dk)" and "length udp < unat (limit :: usize)"
  shows "unat (n + 1) = Suc (length (sessions_on udp dk))"
proof -
  have "length (sessions_on udp dk) \<le> length udp" by (simp add: sessions_on_def)
  then have "unat n + 1 < 2 ^ 64"
    using assms unat_usize_bound [of limit] by linarith
  then show ?thesis using unat_usize_add [of n 1] assms(1) by simp
qed

lemma udp_wf_insert:
  assumes wf: "udp_wf S c qs"
    and fresh: "hm_get (mgr_udp (manager c)) k = None" "sk_proto k = ProtoUdp"
    and room: "length (mgr_udp (manager c)) < unat (cfg_udp_max_sessions (config c))"
    and e: "ue_queue e = length qs"
    and c': "config c' = config c" "mgr_udp (manager c') = hm_insert k e (mgr_udp (manager c))"
      "udp_dst_sockets (manager c') =
        hm_insert (sk_interface k, sk_dst k) (ue_socket e, n) (udp_dst_sockets (manager c))"
    and n: "unat n = Suc (length (sessions_on (mgr_udp (manager c)) (sk_interface k, sk_dst k)))"
    and same: "\<And>h n'. hm_get (udp_dst_sockets (manager c)) (sk_interface k, sk_dst k) = Some (h, n') \<Longrightarrow>
      h = ue_socket e"
    and other: "\<And>d h n'. hm_get (udp_dst_sockets (manager c)) (sk_interface k, d) = Some (h, n') \<Longrightarrow>
      d \<noteq> sk_dst k \<Longrightarrow> h \<noteq> ue_socket e"
    and kinds: "\<And>i h. kind_at S c' i h =
      (if i = sk_interface k \<and> h = ue_socket e then Some UdpKind else kind_at S c i h)"
  shows "udp_wf S c' (qs @ [udp_queue_new])"
proof (rule udp_wfI, unfold c')
  note wf = udp_wfD [OF wf]
  let ?udp = "hm_insert k e (mgr_udp (manager c))"
  let ?dst = "hm_insert (sk_interface k, sk_dst k) (ue_socket e, n) (udp_dst_sockets (manager c))"
  show "hm_wf ?udp" "hm_wf ?dst" using wf(1,2) by simp_all
  show "length ?udp \<le> unat (cfg_udp_max_sessions (config c))"
    using room fresh by (simp add: hm_len_insert)
  show "sk_proto k' = ProtoUdp" if "hm_get ?udp k' = Some e'" for k' e'
    using that wf(4) [of k' e'] fresh by (auto split: if_splits)
  show "ue_queue e' < length (qs @ [udp_queue_new]) \<and> \<not> is_closed ((qs @ [udp_queue_new]) ! ue_queue e')"
    if "hm_get ?udp k' = Some e'" for k' e'
    using that wf(5) [of k' e'] wf(6) [of k' e'] e by (auto simp: nth_append split: if_splits)
  show "map_option fst (hm_get ?dst (sk_interface k', sk_dst k')) = Some (ue_socket e')"
    if "hm_get ?udp k' = Some e'" for k' e'
    using that wf(7) [of k' e'] same by (auto split: if_splits)
  show "k1 = k2" if "hm_get ?udp k1 = Some e1" "hm_get ?udp k2 = Some e2" "ue_queue e1 = ue_queue e2"
    for k1 e1 k2 e2
    using that wf(8) [of k1 e1 k2 e2] wf(5) [of k1 e1] wf(5) [of k2 e2] e by (auto split: if_splits)
  show "kind_at S c' i h = Some UdpKind" if "hm_get ?dst (i, d) = Some (h, n')" for i d h n'
    using that wf(9) [of i d h n'] kinds by (auto split: if_splits)
  show "0 < unat n' \<and> unat n' = length (sessions_on ?udp (i, d))"
    if "hm_get ?dst (i, d) = Some (h, n')" for i d h n'
    using that wf(10) [of i d h n'] wf(11) [of i d h n'] n
    by (auto simp: length_sessions_on_insert [OF fresh(1)] split: if_splits)
  show "d = d'" if "hm_get ?dst (i, d) = Some (h, n1)" "hm_get ?dst (i, d') = Some (h, n2)" for i d d' h n1 n2
    using that wf(12) [of i d h n1 d' n2] other by (auto split: if_splits)
qed

lemma good_udp_insert:
  assumes good: "good S debt ss c qs"
    and fresh: "hm_get (mgr_udp (manager c)) k = None" "sk_proto k = ProtoUdp"
    and room: "length (mgr_udp (manager c)) < unat (cfg_udp_max_sessions (config c))"
    and e: "ue_queue e = length qs"
    and us: "us_interface us = sk_interface k" "us_key us = k" "us_socket us = ue_socket e"
      "us_queue us = length qs"
    and c': "config c' = config c" "slots_wf c'" "within_cap c'"
      "manager c' = (manager c)\<lparr>mgr_udp := hm_insert k e (mgr_udp (manager c)),
        udp_dst_sockets := hm_insert (sk_interface k, sk_dst k) (ue_socket e, n + 1)
          (udp_dst_sockets (manager c))\<rparr>"
    and dst: "hm_get (udp_dst_sockets (manager c)) (sk_interface k, sk_dst k) = Some (ue_socket e, n) \<and>
        buffer_bytes c' = buffer_bytes c \<or>
      hm_get (udp_dst_sockets (manager c)) (sk_interface k, sk_dst k) = None \<and> n = 0 \<and>
        kind_at S c (sk_interface k) (ue_socket e) = None \<and>
        unat (buffer_bytes c') = unat (buffer_bytes c) + udp_cost (config c)"
    and kinds: "\<And>i h. kind_at S c' i h =
      (if i = sk_interface k \<and> h = ue_socket e then Some UdpKind else kind_at S c i h)"
  shows "good S debt (ss @ [SessionUdp us]) c' (qs @ [udp_queue_new])"
proof (rule goodI)
  let ?dst = "udp_dst_sockets (manager c)" and ?dk = "(sk_interface k, sk_dst k)"
  note wf = udp_wfD [OF goodD(4) [OF good]]
  have n: "unat n = length (sessions_on (mgr_udp (manager c)) ?dk)"
    using dst wf(11) [of "sk_interface k" "sk_dst k" "ue_socket e" n]
      sessions_on_absent [OF goodD(4) [OF good], of ?dk] by auto
  show "udp_wf S c' (qs @ [udp_queue_new])"
  proof (rule udp_wf_insert [OF goodD(4) [OF good] fresh room e c'(1) _ _ retained_count [OF n room]])
    show "h = ue_socket e" if "hm_get ?dst ?dk = Some (h, n')" for h n' using dst that by auto
    show "h \<noteq> ue_socket e" if "hm_get ?dst (sk_interface k, d) = Some (h, n')" "d \<noteq> sk_dst k" for d h n'
      using dst wf(9) [OF that(1)] wf(12) [of "sk_interface k" d h n' "sk_dst k" n] that by auto
  qed (use c' kinds in auto)
  show "accounted debt c'"
    using goodD(5) [OF good] dst c' by (auto simp: accounted_def hm_len_insert algebra_simps)
  show "tcp_wf S c'"
  proof (rule tcp_wf_cong [OF goodD(3) [OF good] c'(1)])
    show "kind_at S c' i h = Some TcpKind" if "kind_at S c i h = Some TcpKind" for i h
      using that dst wf(9) [of "sk_interface k" "sk_dst k" "ue_socket e" n] kinds by auto
  qed (simp add: c')
  show "tcp_owned (ss @ [SessionUdp us]) (manager c')"
    using goodD(7) [OF good] by (simp add: tcp_owned_def c')
  show "udp_owned (ss @ [SessionUdp us]) (manager c') (qs @ [udp_queue_new])"
    by (rule udp_owned_add [OF goodD(8) [OF good] fresh(1) e us]) (simp add: c')
qed (use goodD(1) [OF good] c' in auto)

lemma udp_owned_close:
  assumes owned: "udp_owned ss m qs" and get: "hm_get (mgr_udp m) k = Some e"
    and len: "ue_queue e < length qs" and m': "mgr_udp m' = hm_remove k (mgr_udp m)"
  shows "udp_owned ss m' (qs[ue_queue e := mark_closed (qs ! ue_queue e)])"
  unfolding udp_owned_def
proof (intro conjI allI impI)
  fix us assume us: "SessionUdp us \<in> set ss"
  note D = udp_ownedD(1-3) [OF owned us]
  show "us_interface us = sk_interface (us_key us)" by (fact D(1))
  show "us_queue us < length (qs[ue_queue e := mark_closed (qs ! ue_queue e)])" using D(2) by simp
  assume "\<not> is_closed (qs[ue_queue e := mark_closed (qs ! ue_queue e)] ! us_queue us)"
  then have "us_queue us \<noteq> ue_queue e" "\<not> is_closed (qs ! us_queue us)"
    using len by (auto simp: nth_list_update split: if_splits)
  with D(3) get show "\<exists>e. hm_get (mgr_udp m') (us_key us) = Some e \<and> ue_socket e = us_socket us \<and>
      ue_queue e = us_queue us" by (auto simp: m')
next
  fix k' e' assume "hm_get (mgr_udp m') k' = Some e'"
  then have "hm_get (mgr_udp m) k' = Some e'" by (simp add: m' split: if_splits)
  then show "\<exists>us. SessionUdp us \<in> set ss \<and> us_key us = k' \<and> us_queue us = ue_queue e'"
    by (rule udp_ownedD(4) [OF owned])
qed

text \<open>The table of shared sockets after a release, in terms of the reference count.\<close>

definition released_dst ::
    "dst_key \<Rightarrow> socket_handle \<Rightarrow> usize \<Rightarrow> (dst_key, socket_handle \<times> usize) hash_map \<Rightarrow>
     (dst_key, socket_handle \<times> usize) hash_map" where
  "released_dst dk h n dst =
     (if unat n \<le> 1 then hm_remove dk dst else hm_insert dk (h, n - 1) dst)"

lemma udp_socket_release_eq:
  assumes "hm_get (udp_dst_sockets m) dk = Some (h, n)"
  shows "udp_socket_release dk m =
    (unat n \<le> 1, m\<lparr>udp_dst_sockets := released_dst dk h n (udp_dst_sockets m)\<rparr>)"
proof -
  have "saturating_sub n 1 = 0 \<longleftrightarrow> unat n \<le> 1" by (simp add: word_unat_eq_iff)
  moreover have "saturating_sub n 1 = n - 1" if "\<not> unat n \<le> 1"
    using that by (simp add: saturating_sub_def word_le_nat_alt)
  ultimately show ?thesis
    using assms by (simp add: udp_socket_release_def released_dst_def Let_def)
qed

lemma released_dst_get:
  "hm_get (released_dst dk h n dst) dk' =
    (if dk' = dk then (if unat n \<le> 1 then None else Some (h, n - 1)) else hm_get dst dk')"
  by (simp add: released_dst_def)

lemma udp_wf_remove:
  assumes wf: "udp_wf S c qs" and get: "hm_get (mgr_udp (manager c)) k = Some e"
    and dst: "hm_get (udp_dst_sockets (manager c)) (sk_interface k, sk_dst k) = Some (ue_socket e, n)"
    and c': "config c' = config c" "mgr_udp (manager c') = hm_remove k (mgr_udp (manager c))"
      "udp_dst_sockets (manager c') =
        released_dst (sk_interface k, sk_dst k) (ue_socket e) n (udp_dst_sockets (manager c))"
    and kinds: "\<And>i h. kind_at S c' i h =
      (if unat n \<le> 1 \<and> i = sk_interface k \<and> h = ue_socket e then None else kind_at S c i h)"
  shows "udp_wf S c' (qs[ue_queue e := mark_closed (qs ! ue_queue e)])"
proof (rule udp_wfI, unfold c')
  note wf = udp_wfD [OF wf]
  let ?udp = "hm_remove k (mgr_udp (manager c))" and ?dk = "(sk_interface k, sk_dst k)"
  let ?dst = "released_dst ?dk (ue_socket e) n (udp_dst_sockets (manager c))"
  note on = length_sessions_on_remove [OF wf(1) get]
  have count: "unat n = Suc (length (sessions_on ?udp ?dk))"
    using wf(11) [OF dst] on [of ?dk] by simp
  have others: "unat n \<noteq> 1" if "hm_get ?udp k' = Some e'" "(sk_interface k', sk_dst k') = ?dk" for k' e'
    using sessions_on_nonempty [OF that(1)] that(2) count by auto
  show "hm_wf ?udp" "hm_wf ?dst" using wf(1,2) by (simp_all add: released_dst_def)
  show "length ?udp \<le> unat (cfg_udp_max_sessions (config c))"
    using wf(3) length_delete_le [of k "mgr_udp (manager c)"] by simp
  fix k' e' assume g: "hm_get ?udp k' = Some e'"
  then have old: "k' \<noteq> k" "hm_get (mgr_udp (manager c)) k' = Some e'" by (auto split: if_splits)
  show "sk_proto k' = ProtoUdp" by (rule wf(4) [OF old(2)])
  have "ue_queue e' \<noteq> ue_queue e" using wf(8) [OF old(2) get] old(1) by auto
  then show "ue_queue e' < length (qs[ue_queue e := mark_closed (qs ! ue_queue e)]) \<and>
      \<not> is_closed (qs[ue_queue e := mark_closed (qs ! ue_queue e)] ! ue_queue e')"
    using wf(5,6) [OF old(2)] by simp
  show "map_option fst (hm_get ?dst (sk_interface k', sk_dst k')) = Some (ue_socket e')"
    using wf(7) [OF old(2)] dst others [OF g] count by (auto simp: released_dst_get)
next
  note wf = udp_wfD [OF wf]
  let ?udp = "hm_remove k (mgr_udp (manager c))" and ?dk = "(sk_interface k, sk_dst k)"
  let ?dst = "released_dst ?dk (ue_socket e) n (udp_dst_sockets (manager c))"
  note on = length_sessions_on_remove [OF wf(1) get]
  show "k1 = k2" if "hm_get ?udp k1 = Some e1" "hm_get ?udp k2 = Some e2" "ue_queue e1 = ue_queue e2"
    for k1 e1 k2 e2
    using that wf(8) [of k1 e1 k2 e2] by (auto split: if_splits)
  have minus: "unat (n - 1) = unat n - 1" if "\<not> unat n \<le> 1"
    using that by (simp add: unat_sub word_le_nat_alt)
  fix i d h n' assume g: "hm_get ?dst (i, d) = Some (h, n')"
  show "kind_at S c' i h = Some UdpKind"
    using g dst wf(9) [of i d h] wf(12) [of i d h _ "sk_dst k" n] kinds
    by (auto simp: released_dst_get split: if_splits)
  show "0 < unat n' \<and> unat n' = length (sessions_on ?udp (i, d))"
    using g wf(10,11) [of i d h n'] wf(11) [OF dst] on [of "(i, d)"] minus
    by (auto simp: released_dst_get split: if_splits)
  show "d = d'" if "hm_get ?dst (i, d') = Some (h, n2)" for d' n2
    using that g dst wf(12) [of i d h _ d' _] by (auto simp: released_dst_get split: if_splits)
qed

lemma length_released_dst:
  assumes "hm_wf dst" and "hm_get dst dk = Some (h, n)"
  shows "length dst = length (released_dst dk h n dst) + (if unat n \<le> 1 then 1 else 0)"
proof -
  have "length dst \<noteq> 0" using assms(2) by auto
  then show ?thesis
    using assms by (auto simp: released_dst_def hm_len_insert hm_len_remove)
qed

lemma good_udp_remove:
  assumes good: "good S debt ss c qs" and get: "hm_get (mgr_udp (manager c)) k = Some e"
    and dst: "hm_get (udp_dst_sockets (manager c)) (sk_interface k, sk_dst k) = Some (ue_socket e, n)"
    and c': "config c' = config c" "slots_wf c'" "buffer_bytes c' = buffer_bytes c"
      "manager c' = (manager c)\<lparr>mgr_udp := hm_remove k (mgr_udp (manager c)),
        udp_dst_sockets := released_dst (sk_interface k, sk_dst k) (ue_socket e) n
          (udp_dst_sockets (manager c))\<rparr>"
    and kinds: "\<And>i h. kind_at S c' i h =
      (if unat n \<le> 1 \<and> i = sk_interface k \<and> h = ue_socket e then None else kind_at S c i h)"
  shows "good S (debt + (if unat n \<le> 1 then udp_cost (config c) else 0)) ss c'
    (qs[ue_queue e := mark_closed (qs ! ue_queue e)])"
proof (rule goodI)
  note wf = udp_wfD [OF goodD(4) [OF good]]
  show "accounted (debt + (if unat n \<le> 1 then udp_cost (config c) else 0)) c'"
    using goodD(5) [OF good] c' length_released_dst [OF wf(2) dst]
    by (auto simp: accounted_def)
  show "tcp_wf S c'"
  proof (rule tcp_wf_cong [OF goodD(3) [OF good] c'(1)])
    show "kind_at S c' i h = Some TcpKind" if "kind_at S c i h = Some TcpKind" for i h
      using that wf(9) [OF dst] kinds by auto
  qed (simp add: c')
  show "udp_wf S c' (qs[ue_queue e := mark_closed (qs ! ue_queue e)])"
    by (rule udp_wf_remove [OF goodD(4) [OF good] get dst]) (use c' kinds in auto)
  show "tcp_owned ss (manager c')" using goodD(7) [OF good] by (simp add: tcp_owned_def c')
  show "udp_owned ss (manager c') (qs[ue_queue e := mark_closed (qs ! ue_queue e)])"
    by (rule udp_owned_close [OF goodD(8) [OF good] get wf(5) [OF get]]) (simp add: c')
qed (use goodD [OF good] c' in \<open>auto simp: within_cap_def\<close>)

section \<open>Streams come and go\<close>

lemma tcp_ownedD:
  assumes "tcp_owned ss m"
  shows "SessionTcp st \<in> set ss \<Longrightarrow> ts_interface st = sk_interface (ts_key st)"
    and "SessionTcp st \<in> set ss \<Longrightarrow> \<exists>e. hm_get (mgr_tcp m) (ts_key st) = Some e \<and>
      te_handle e = ts_handle st \<and> \<not> te_orphaned e \<and> te_state e \<noteq> TcpPending"
    and "hm_get (mgr_tcp m) k = Some e \<Longrightarrow> \<not> te_orphaned e \<Longrightarrow> te_state e \<noteq> TcpPending \<Longrightarrow>
      \<exists>st. SessionTcp st \<in> set ss \<and> ts_key st = k"
    and "distinct [ts_key st. SessionTcp st \<leftarrow> ss]"
  using assms unfolding tcp_owned_def by blast+

lemma tcp_key_in: "k \<in> set [ts_key st. SessionTcp st \<leftarrow> ss] \<longleftrightarrow> (\<exists>st. SessionTcp st \<in> set ss \<and> ts_key st = k)"
  by (auto split: session.splits)

lemma tcp_owned_add:
  assumes owned: "tcp_owned ss m"
    and get: "hm_get (mgr_tcp m) k = Some e" "te_state e = TcpPending" "\<not> te_orphaned e"
    and st: "ts_interface st = sk_interface k" "ts_key st = k" "ts_handle st = te_handle e"
    and m': "mgr_tcp m' = hm_insert k (e\<lparr>te_state := TcpEstablished\<rparr>) (mgr_tcp m)"
  shows "tcp_owned (ss @ [SessionTcp st]) m'"
  unfolding tcp_owned_def
proof (intro conjI allI impI)
  have new: "ts_key st' \<noteq> k" if "SessionTcp st' \<in> set ss" for st'
    using tcp_ownedD(2) [OF owned that] get by auto
  then have "k \<notin> set [ts_key st. SessionTcp st \<leftarrow> ss]" unfolding tcp_key_in by blast
  then show "distinct [ts_key st'. SessionTcp st' \<leftarrow> ss @ [SessionTcp st]]"
    using tcp_ownedD(4) [OF owned] st(2) by simp
  fix st' assume "SessionTcp st' \<in> set (ss @ [SessionTcp st])"
  then consider "st' = st" | "SessionTcp st' \<in> set ss" by auto
  then show "ts_interface st' = sk_interface (ts_key st')"
    and "\<exists>e. hm_get (mgr_tcp m') (ts_key st') = Some e \<and> te_handle e = ts_handle st' \<and>
      \<not> te_orphaned e \<and> te_state e \<noteq> TcpPending"
    using new [of st'] tcp_ownedD(1,2) [OF owned, of st'] st get by (cases; simp add: m')+
next
  fix k' e' assume a: "hm_get (mgr_tcp m') k' = Some e'" "\<not> te_orphaned e'" "te_state e' \<noteq> TcpPending"
  show "\<exists>st'. SessionTcp st' \<in> set (ss @ [SessionTcp st]) \<and> ts_key st' = k'"
  proof (cases "k' = k")
    case True
    then show ?thesis using st(2) by (intro exI [of _ st]) simp
  next
    case False
    then show ?thesis using tcp_ownedD(3) [OF owned, of k' e'] a by (auto simp: m')
  qed
qed

lemma tcp_keys_remove1:
  assumes "SessionTcp st \<in> set ss" and "distinct [ts_key st. SessionTcp st \<leftarrow> ss]"
  shows "set [ts_key st'. SessionTcp st' \<leftarrow> remove1 (SessionTcp st) ss] =
      set [ts_key st'. SessionTcp st' \<leftarrow> ss] - {ts_key st} \<and>
    distinct [ts_key st'. SessionTcp st' \<leftarrow> remove1 (SessionTcp st) ss]"
  using assms
proof (induction ss)
  case (Cons s ss)
  then show ?case
    by (cases s) (auto simp: tcp_key_in [unfolded set_concat] split: if_splits session.splits)
qed simp

lemma tcp_owned_orphan:
  assumes owned: "tcp_owned ss m" and st: "SessionTcp st \<in> set ss"
    and get: "hm_get (mgr_tcp m) (ts_key st) = Some e"
    and m': "mgr_tcp m' = hm_insert (ts_key st) (e\<lparr>te_orphaned := True\<rparr>) (mgr_tcp m)"
  shows "tcp_owned (remove1 (SessionTcp st) ss) m'"
proof -
  note keys = tcp_keys_remove1 [OF st tcp_ownedD(4) [OF owned]]
  have left: "ts_key st' \<noteq> ts_key st" if "SessionTcp st' \<in> set (remove1 (SessionTcp st) ss)" for st'
    using keys that tcp_key_in by blast
  have in_ss: "SessionTcp st' \<in> set ss" if "SessionTcp st' \<in> set (remove1 (SessionTcp st) ss)" for st'
    using that by (metis notin_set_remove1)
  show ?thesis unfolding tcp_owned_def
  proof (intro conjI allI impI)
    fix st' assume a: "SessionTcp st' \<in> set (remove1 (SessionTcp st) ss)"
    show "ts_interface st' = sk_interface (ts_key st')" by (rule tcp_ownedD(1) [OF owned in_ss [OF a]])
    show "\<exists>e. hm_get (mgr_tcp m') (ts_key st') = Some e \<and> te_handle e = ts_handle st' \<and>
        \<not> te_orphaned e \<and> te_state e \<noteq> TcpPending"
      using tcp_ownedD(2) [OF owned in_ss [OF a]] left [OF a] by (simp add: m')
  next
    fix k e' assume "hm_get (mgr_tcp m') k = Some e'" "\<not> te_orphaned e'" "te_state e' \<noteq> TcpPending"
    then have "k \<noteq> ts_key st" "\<exists>st. SessionTcp st \<in> set ss \<and> ts_key st = k"
      using tcp_ownedD(3) [OF owned, of k e'] by (auto simp: m' split: if_splits)
    then obtain st' where "SessionTcp st' \<in> set ss" "ts_key st' = k" "SessionTcp st' \<noteq> SessionTcp st" by auto
    then show "\<exists>st'. SessionTcp st' \<in> set (remove1 (SessionTcp st) ss) \<and> ts_key st' = k"
      by (metis in_set_remove1)
  qed (use keys in blast)
qed

end
