(* ===== verification/Stream_Ops.thy ===== *)
theory Stream_Ops
  imports Core_Changes
begin

text \<open>
  The operations of the application's side, \<open>src/src/stream/tcp.rs\<close> and \<open>src/src/stream/udp.rs\<close>, on a
  state that satisfies the invariant: none of them panics, and each keeps the invariant. Dropping a
  session takes it out of the list of existing sessions.
\<close>

abbreviation sh_good ::
    "('i, 's, 't, 'u, 'x) smoltcp_scheme \<Rightarrow> nat \<Rightarrow> session list \<Rightarrow> ('i, 's, 't) shared \<Rightarrow> bool" where
  "sh_good S debt ss sh \<equiv> good S debt ss (sh_core sh) (sh_queues sh)"

lemma kind_at_TcpKind:
  "kind_at S c i h = Some TcpKind \<longleftrightarrow>
    (\<exists>slot t. core_slot c i = Some slot \<and> get_mut_tcp S (sockets slot) h = Some t)"
  by (auto simp: kind_at_def sock_at_def get_mut_tcp_Some split: option.splits elim: kind_of.elims)

lemma kind_at_UdpKind:
  "kind_at S c i h = Some UdpKind \<longleftrightarrow>
    (\<exists>slot u. core_slot c i = Some slot \<and> get_mut_udp S (sockets slot) h = Some u)"
  by (auto simp: kind_at_def sock_at_def get_mut_udp_Some split: option.splits elim: kind_of.elims)

section \<open>TCP streams\<close>

lemma tcp_stream_socket:
  assumes good: "good S debt ss c qs" and st: "SessionTcp st \<in> set ss"
  obtains slot t where "core_slot c (ts_interface st) = Some slot"
    and "get_mut_tcp S (sockets slot) (ts_handle st) = Some t"
proof -
  obtain e where e: "hm_get (mgr_tcp (manager c)) (ts_key st) = Some e" "te_handle e = ts_handle st"
    using tcp_ownedD(2) [OF goodD(7) [OF good] st] by blast
  have "kind_at S c (ts_interface st) (ts_handle st) = Some TcpKind"
    using tcp_wfD(4) [OF goodD(3) [OF good] e(1)] e(2) tcp_ownedD(1) [OF goodD(7) [OF good] st] by simp
  then show thesis using that by (auto simp: kind_at_TcpKind)
qed

lemma put_tcp_frame [frame_simps, simp]:
  "sh_queues (put_tcp S slot h t sh) = sh_queues sh"
  "sh_core (put_tcp S slot h t sh) = put_socket S slot h (TcpSocket t) (sh_core sh)"
  by (simp_all add: put_tcp_def)

lemma same_shape_put_tcp:
  assumes "socket_set_laws S" and "core_slot c i = Some slot"
    and "get_mut_tcp S (sockets slot) h = Some t"
  shows "same_shape S c (put_socket S slot h (TcpSocket t') c)"
  using assms by (auto simp: get_mut_tcp_Some intro: same_shape_put_socket)

text \<open>Every branch of the two polls is a write to the stream's own socket.\<close>

lemma tcp_poll_read_shape:
  assumes S: "socket_set_laws S" and slot: "core_slot (sh_core sh) (ts_interface st) = Some slot"
    and sock: "get_mut_tcp S (sockets slot) (ts_handle st) = Some t"
  shows "\<exists>r sh'. tcp_poll_read S st wk n sh = Some (r, sh') \<and>
    same_shape S (sh_core sh) (sh_core sh') \<and> sh_queues sh' = sh_queues sh"
  using same_shape_put_tcp [OF S slot sock]
  by (auto simp: tcp_poll_read_def slot sock split: prod.splits sum.splits tcp_recv_error.splits)

lemma tcp_poll_write_shape:
  assumes S: "socket_set_laws S" and slot: "core_slot (sh_core sh) (ts_interface st) = Some slot"
    and sock: "get_mut_tcp S (sockets slot) (ts_handle st) = Some t"
  shows "\<exists>r sh'. tcp_poll_write S st wk data sh = Some (r, sh') \<and>
    same_shape S (sh_core sh) (sh_core sh') \<and> sh_queues sh' = sh_queues sh"
  using same_shape_put_tcp [OF S slot sock]
  by (auto simp: tcp_poll_write_def slot sock split: prod.splits sum.splits tcp_send_error.splits)

lemma close_if_open_shape:
  assumes S: "socket_set_laws S" and slot: "core_slot (sh_core sh) (ts_interface st) = Some slot"
    and sock: "get_mut_tcp S (sockets slot) (ts_handle st) = Some t"
  shows "\<exists>sh'. close_if_open S st sh = Some sh' \<and>
    same_shape S (sh_core sh) (sh_core sh') \<and> sh_queues sh' = sh_queues sh"
  using same_shape_put_tcp [OF S slot sock] by (simp add: close_if_open_def slot sock)

lemma tcp_poll_read_good:
  assumes "socket_set_laws S" and good: "sh_good S debt ss sh" and st: "SessionTcp st \<in> set ss"
  shows "\<exists>r sh'. tcp_poll_read S st wk n sh = Some (r, sh') \<and> sh_good S debt ss sh'"
  using tcp_stream_socket [OF good st] tcp_poll_read_shape [OF assms(1)] good_same_shape [OF _ good]
  by metis

lemma tcp_poll_write_good:
  assumes "socket_set_laws S" and good: "sh_good S debt ss sh" and st: "SessionTcp st \<in> set ss"
  shows "\<exists>r sh'. tcp_poll_write S st wk data sh = Some (r, sh') \<and> sh_good S debt ss sh'"
  using tcp_stream_socket [OF good st] tcp_poll_write_shape [OF assms(1)] good_same_shape [OF _ good]
  by metis

lemma close_if_open_good:
  assumes "socket_set_laws S" and good: "sh_good S debt ss sh" and st: "SessionTcp st \<in> set ss"
  shows "\<exists>sh'. close_if_open S st sh = Some sh' \<and> sh_good S debt ss sh' \<and>
    manager (sh_core sh') = manager (sh_core sh)"
proof -
  obtain slot t where "core_slot (sh_core sh) (ts_interface st) = Some slot"
    "get_mut_tcp S (sockets slot) (ts_handle st) = Some t"
    by (rule tcp_stream_socket [OF good st])
  from close_if_open_shape [OF assms(1) this] obtain sh' where
    "close_if_open S st sh = Some sh'" "same_shape S (sh_core sh) (sh_core sh')"
    "sh_queues sh' = sh_queues sh" by blast
  then show ?thesis using good_same_shape [OF _ good] by (auto simp: same_shape_def)
qed

lemma tcp_poll_shutdown_good:
  assumes "socket_set_laws S" and "sh_good S debt ss sh" and "SessionTcp st \<in> set ss"
  shows "\<exists>r sh'. tcp_poll_shutdown S st sh = Some (r, sh') \<and> sh_good S debt ss sh'"
  using close_if_open_good [OF assms] by (auto simp: tcp_poll_shutdown_def)

lemma tcp_drop_good:
  assumes S: "socket_set_laws S" and good: "sh_good S debt ss sh" and st: "SessionTcp st \<in> set ss"
  shows "\<exists>sh'. tcp_drop S st sh = Some sh' \<and> sh_good S debt (remove1 (SessionTcp st) ss) sh'"
proof -
  obtain sh1 where sh1: "close_if_open S st sh = Some sh1" "sh_good S debt ss sh1"
    "manager (sh_core sh1) = manager (sh_core sh)"
    using close_if_open_good [OF S good st] by blast
  obtain e where e: "hm_get (mgr_tcp (manager (sh_core sh1))) (ts_key st) = Some e"
    "te_state e \<noteq> TcpPending"
    using tcp_ownedD(2) [OF goodD(7) [OF sh1(2)] st] by blast
  let ?m = "(manager (sh_core sh1))
    \<lparr>mgr_tcp := hm_insert (ts_key st) (e\<lparr>te_orphaned := True\<rparr>) (mgr_tcp (manager (sh_core sh1)))\<rparr>"
  have udp: "udp_owned (remove1 (SessionTcp st) ss) ?m (sh_queues sh1)"
    using goodD(8) [OF sh1(2)] by (simp add: udp_owned_def in_set_remove1)
  have "good S debt (remove1 (SessionTcp st) ss) ((sh_core sh1)\<lparr>manager := ?m\<rparr>) (sh_queues sh1)"
    by (rule good_tcp_update [OF sh1(2) e(1)])
      (use e(2) udp in \<open>auto intro: tcp_owned_orphan [OF goodD(7) [OF sh1(2)] st e(1)]\<close>)
  moreover have "tcp_drop S st sh = Some (notify_poll (set_orphaned (ts_key st) sh1))"
    using e(1) by (simp add: tcp_drop_def sh1)
  ultimately show ?thesis
    using e(1) by (simp add: set_orphaned_def update_tcp_entry_def)
qed

section \<open>UDP sessions\<close>

lemma udp_session_socket:
  assumes good: "good S debt ss c qs" and us: "SessionUdp us \<in> set ss"
    and "\<not> is_closed (qs ! us_queue us)"
  obtains slot u where "core_slot c (us_interface us) = Some slot"
    and "get_mut_udp S (sockets slot) (us_socket us) = Some u"
proof -
  obtain e where e: "hm_get (mgr_udp (manager c)) (us_key us) = Some e" "ue_socket e = us_socket us"
    using udp_ownedD(3) [OF goodD(8) [OF good] us assms(3)] by blast
  obtain n where "hm_get (udp_dst_sockets (manager c)) (sk_interface (us_key us), sk_dst (us_key us)) =
      Some (ue_socket e, n)"
    using udp_wfD(7) [OF goodD(4) [OF good] e(1)] by auto
  then have "kind_at S c (us_interface us) (us_socket us) = Some UdpKind"
    using udp_wfD(9) [OF goodD(4) [OF good]] e(2) udp_ownedD(1) [OF goodD(8) [OF good] us] by metis
  then show thesis using that by (auto simp: kind_at_UdpKind)
qed

lemma same_shape_put_udp:
  assumes "socket_set_laws S" and "core_slot c i = Some slot"
    and "get_mut_udp S (sockets slot) h = Some u"
  shows "same_shape S c (put_socket S slot h (UdpSocket u') c)"
  using assms by (auto simp: get_mut_udp_Some intro: same_shape_put_socket)

lemma udp_try_send_good:
  assumes S: "socket_set_laws S" and good: "sh_good S debt ss sh" and us: "SessionUdp us \<in> set ss"
  shows "\<exists>r sh'. udp_try_send S us payload target sh = Some (r, sh') \<and> sh_good S debt ss sh'"
proof (cases "is_closed (sh_queues sh ! us_queue us)")
  case True
  then show ?thesis using good by (simp add: udp_try_send_def)
next
  case False
  obtain slot u where slot: "core_slot (sh_core sh) (us_interface us) = Some slot"
    and sock: "get_mut_udp S (sockets slot) (us_socket us) = Some u"
    by (rule udp_session_socket [OF good us False])
  have "good S debt ss (put_socket S slot (us_socket us) (UdpSocket u') (sh_core sh)) (sh_queues sh)" for u'
    by (rule good_same_shape [OF same_shape_put_udp [OF S slot sock] good])
  then show ?thesis using False by (simp add: udp_try_send_def slot sock split_beta)
qed

lemma udp_send_poll_good:
  assumes "socket_set_laws S" and "sh_good S debt ss sh" and "SessionUdp us \<in> set ss"
  shows "\<exists>r sh'. udp_send_poll S us payload sh = Some (r, sh') \<and> sh_good S debt ss sh'"
proof -
  obtain r sh' where "udp_try_send S us payload
      \<lparr>ep_addr = ep_addr (sk_src (us_key us)), ep_port = ep_port (sk_src (us_key us))\<rparr> sh = Some (r, sh')"
    "sh_good S debt ss sh'"
    using udp_try_send_good [OF assms] by blast
  then show ?thesis by (cases r) (simp_all add: udp_send_poll_def)
qed

lemma is_closed_pop: "udp_queue_pop q = (r, q') \<Longrightarrow> is_closed q' = is_closed q"
  using is_closed_simps(2) [of q] by simp

lemma udp_recv_poll_queues:
  "sh_core (snd (udp_recv_poll us sh)) = sh_core sh \<and>
   same_queues (sh_queues sh) (sh_queues (snd (udp_recv_poll us sh)))"
  by (auto simp: udp_recv_poll_def split: prod.splits option.splits
      intro!: same_queues_update dest: is_closed_pop)

lemma udp_recv_poll_good:
  assumes "sh_good S debt ss sh"
  shows "sh_good S debt ss (snd (udp_recv_poll us sh))"
  using udp_recv_poll_queues [of us sh] good_same_queues [OF _ assms] by simp

section \<open>Unregistering a UDP session\<close>

lemma slots_wf_put_slot:
  assumes wf: "slots_wf c" and slot: "core_slot c i = Some s"
    and s': "slot_id s' = i" "slot_mtu s' = slot_mtu s" "slot_tcp_buffer_size s' = slot_tcp_buffer_size s"
      "slot_tcp_pool_max s' = slot_tcp_pool_max s"
      "length (tcp_pool s') \<le> unat (cfg_tcp_pool_size (config c))"
  shows "slots_wf (put_slot i s' c)"
proof -
  have "s \<in> set (slots c)" using slot by (rule core_slot_Some)
  then have "slot_mtu s' = cfg_mtu (config c)" "slot_tcp_buffer_size s' = cfg_tcp_buffer_size (config c)"
    "slot_tcp_pool_max s' = cfg_tcp_pool_size (config c)"
    using wf s' by (auto simp: slots_wf_def)
  moreover have "set (slots (put_slot i s' c)) \<subseteq> insert s' (set (slots c))"
    using set_put_first by (simp add: put_slot_def)
  moreover have "map slot_id (slots (put_slot i s' c)) = map slot_id (slots c)"
    using map_slot_id_put_first [OF s'(1)] by (simp add: put_slot_def)
  ultimately show ?thesis using wf s'(5) unfolding slots_wf_def by auto
qed

lemma slots_wf_frame [simp]:
  "slots_wf (c\<lparr>manager := m\<rparr>) = slots_wf c"
  "slots_wf (c\<lparr>buffer_bytes := b\<rparr>) = slots_wf c"
  by (simp_all add: slots_wf_def)

lemma kind_at_removed:
  assumes S: "socket_set_laws S" and slot: "core_slot c i = Some s" "ss_get S (sockets s) h \<noteq> None"
    and s': "slot_id s' = i" "sockets s' = ss_remove S (sockets s) h"
  shows "kind_at S (put_slot i s' c) j h' = (if j = i \<and> h' = h then None else kind_at S c j h')"
proof -
  have "sock_at S (put_slot i s' c) j h' = (if j = i then ss_get S (sockets s') h' else sock_at S c j h')"
    by (rule sock_at_put_slot) (use slot s' in auto)
  then show ?thesis
    using socket_set_lawsD(5) [OF S slot(2)] slot(1) s'(2) by (auto simp: kind_at_def sock_at_slot)
qed

text \<open>The two cost computations do not wrap around: \<open>config_ok\<close> bounds what they can add up to.\<close>

lemma cost_factor:
  assumes "a * n + b * m < (2 ^ 64 :: nat)" and "0 < n"
  shows "a < 2 ^ 64"
  using assms by (metis add_lessD1 le_trans linorder_not_less mult.commute mult_le_mono1 mult_1 One_nat_def Suc_leI)

lemma unat_udp_per_socket_bytes:
  assumes "config_ok cfg" and "0 < unat (cfg_udp_max_sessions cfg)"
  shows "unat (udp_per_socket_bytes cfg (cfg_mtu cfg)) = udp_cost cfg"
proof -
  let ?p = "max (cfg_udp_buffer_packets cfg) 1 :: usize"
  let ?b = "max (cfg_udp_buffer_bytes cfg) (cfg_mtu cfg)"
  have "udp_cost cfg < 2 ^ 64"
    using assms cost_factor [of "udp_cost cfg" "unat (cfg_udp_max_sessions cfg)" "tcp_cost cfg"]
    by (simp add: config_ok_def add.commute)
  then have "unat ?p * 64 + unat ?b < 2 ^ 64"
    by (simp add: udp_cost_def unat_usize_max)
  then have "unat (?p * 64) = unat ?p * 64" and "unat (?p * 64) + unat ?b < 2 ^ 64"
    using unat_usize_mult [of ?p 64] by simp_all
  then have "unat (?p * 64 + ?b) = unat ?p * 64 + unat ?b" using unat_usize_add by metis
  then show ?thesis
    by (simp add: udp_per_socket_bytes_def udp_cost_def unat_usize_max)
qed

lemma good_release:
  assumes good: "good S (debt + unat n) ss c qs"
  shows "good S debt ss (release_buffer n c) qs"
proof (rule goodI)
  show "accounted debt (release_buffer n c)"
    using goodD(5) [OF good] by (simp add: accounted_def release_buffer_def)
  show "within_cap (release_buffer n c)"
    using goodD(6) [OF good]
    by (auto simp: within_cap_def release_buffer_def intro: order_trans [OF saturating_sub_le])
  show "tcp_wf S (release_buffer n c)"
    by (rule tcp_wf_cong [OF goodD(3) [OF good]]) (simp_all add: release_buffer_def)
  show "udp_wf S (release_buffer n c) qs"
    by (rule udp_wf_cong [OF goodD(4) [OF good]]) (simp_all add: release_buffer_def)
qed (use goodD [OF good] in \<open>simp_all add: release_buffer_def\<close>)

text \<open>Queues only close, and closing keeps their contents.\<close>

definition closing :: "udp_queue list \<Rightarrow> udp_queue list \<Rightarrow> bool" where
  "closing qs qs' \<longleftrightarrow> map q_inner qs' = map q_inner qs \<and>
     (\<forall>i < length qs. is_closed (qs ! i) \<longrightarrow> is_closed (qs' ! i))"

lemma closing_refl [simp]: "closing qs qs"
  by (simp add: closing_def)

lemma closing_length: "closing qs qs' \<Longrightarrow> length qs' = length qs"
  unfolding closing_def by (metis length_map)

lemma closing_trans: "closing a b \<Longrightarrow> closing b c \<Longrightarrow> closing a c"
  using closing_length [of a b] by (simp add: closing_def)

lemma closing_mark: "closing qs (qs[i := mark_closed (qs ! i)])"
  by (cases "i < length qs") (auto simp: closing_def map_update list_update_same_conv nth_list_update list_update_beyond)

lemma closing_inner: "closing qs qs' \<Longrightarrow> i < length qs \<Longrightarrow> q_inner (qs' ! i) = q_inner (qs ! i)"
  using closing_length [of qs qs'] unfolding closing_def by (metis nth_map)

definition freed :: "netstack_config \<Rightarrow> usize option \<Rightarrow> usize" where
  "freed cfg removed = (case removed of Some mtu \<Rightarrow> udp_per_socket_bytes cfg mtu | None \<Rightarrow> 0)"

lemma udp_unregister_absent:
  "hm_get (mgr_udp (manager c)) k = None \<Longrightarrow> udp_unregister S i k (c, qs) = Some (None, c, qs)"
  by (simp add: udp_unregister_def)

text \<open>The result of unregistering a session that is there, by its reference count.\<close>

lemma udp_unregister_present:
  assumes good: "good S debt ss c qs" and get: "hm_get (mgr_udp (manager c)) k = Some e"
  obtains slot n where "core_slot c (sk_interface k) = Some slot"
    and "ss_get S (sockets slot) (ue_socket e) \<noteq> None" and "slot_mtu slot = cfg_mtu (config c)"
    and "hm_get (udp_dst_sockets (manager c)) (sk_interface k, sk_dst k) = Some (ue_socket e, n)"
    and "udp_unregister S (sk_interface k) k (c, qs) =
      (let c' = c\<lparr>manager := (manager c)\<lparr>mgr_udp := hm_remove k (mgr_udp (manager c)),
             udp_dst_sockets := released_dst (sk_interface k, sk_dst k) (ue_socket e) n
               (udp_dst_sockets (manager c))\<rparr>\<rparr>;
           qs' = qs[ue_queue e := mark_closed (qs ! ue_queue e)]
       in Some (if unat n \<le> 1
            then (Some (slot_mtu slot), put_slot (sk_interface k)
              (slot\<lparr>sockets := ss_remove S (sockets slot) (ue_socket e)\<rparr>) c', qs')
            else (None, c', qs')))"
proof -
  note wf = udp_wfD [OF goodD(4) [OF good]]
  obtain n where dst: "hm_get (udp_dst_sockets (manager c)) (sk_interface k, sk_dst k) = Some (ue_socket e, n)"
    using wf(7) [OF get] by auto
  obtain slot u where slot: "core_slot c (sk_interface k) = Some slot"
    and sock: "get_mut_udp S (sockets slot) (ue_socket e) = Some u"
    using wf(9) [OF dst] by (auto simp: kind_at_UdpKind)
  have mtu: "slot_mtu slot = cfg_mtu (config c)"
    using goodD(2) [OF good] core_slot_Some(1) [OF slot] by (auto simp: slots_wf_def)
  show thesis
    by (rule that [OF slot _ mtu dst])
      (use get sock slot dst udp_socket_release_eq
          [of "(manager c)\<lparr>mgr_udp := hm_remove k (mgr_udp (manager c))\<rparr>"] in
        \<open>auto simp: udp_unregister_def get_mut_udp_Some Let_def\<close>)
qed

lemma udp_unregister_good:
  assumes S: "socket_set_laws S" and good: "good S debt ss c qs"
  shows "\<exists>removed c' qs'. udp_unregister S (sk_interface k) k (c, qs) = Some (removed, c', qs') \<and>
    good S (debt + unat (freed (config c) removed)) ss c' qs' \<and> config c' = config c \<and>
    mgr_udp (manager c') = hm_remove k (mgr_udp (manager c)) \<and> closing qs qs' \<and>
    (\<forall>e. hm_get (mgr_udp (manager c)) k = Some e \<longrightarrow> is_closed (qs' ! ue_queue e)) \<and>
    mgr_tcp (manager c') = mgr_tcp (manager c)"
proof (cases "hm_get (mgr_udp (manager c)) k")
  case None
  then have "hm_remove k (mgr_udp (manager c)) = mgr_udp (manager c)"
    by (simp add: map_of_eq_None_iff)
  then show ?thesis using good None by (simp add: udp_unregister_absent [OF None] freed_def)
next
  case (Some e)
  have room: "0 < unat (cfg_udp_max_sessions (config c))"
    using udp_wfD(3) [OF goodD(4) [OF good]] Some by (cases "mgr_udp (manager c)") auto
  note cost = unat_udp_per_socket_bytes [OF goodD(1) [OF good] this]
  obtain slot n where slot: "core_slot c (sk_interface k) = Some slot"
      "ss_get S (sockets slot) (ue_socket e) \<noteq> None" and mtu: "slot_mtu slot = cfg_mtu (config c)"
    and dst: "hm_get (udp_dst_sockets (manager c)) (sk_interface k, sk_dst k) = Some (ue_socket e, n)"
    and eq: "udp_unregister S (sk_interface k) k (c, qs) =
      (let c' = c\<lparr>manager := (manager c)\<lparr>mgr_udp := hm_remove k (mgr_udp (manager c)),
             udp_dst_sockets := released_dst (sk_interface k, sk_dst k) (ue_socket e) n
               (udp_dst_sockets (manager c))\<rparr>\<rparr>;
           qs' = qs[ue_queue e := mark_closed (qs ! ue_queue e)]
       in Some (if unat n \<le> 1
            then (Some (slot_mtu slot), put_slot (sk_interface k)
              (slot\<lparr>sockets := ss_remove S (sockets slot) (ue_socket e)\<rparr>) c', qs')
            else (None, c', qs')))"
    by (rule udp_unregister_present [OF good Some])
  let ?m = "(manager c)\<lparr>mgr_udp := hm_remove k (mgr_udp (manager c)),
    udp_dst_sockets := released_dst (sk_interface k, sk_dst k) (ue_socket e) n (udp_dst_sockets (manager c))\<rparr>"
  let ?slot = "slot\<lparr>sockets := ss_remove S (sockets slot) (ue_socket e)\<rparr>"
  let ?c = "if unat n \<le> 1 then put_slot (sk_interface k) ?slot (c\<lparr>manager := ?m\<rparr>) else c\<lparr>manager := ?m\<rparr>"
  have id': "slot_id slot = sk_interface k" using slot(1) by (rule core_slot_Some)
  have "length (tcp_pool slot) \<le> unat (cfg_tcp_pool_size (config c))"
    using goodD(2) [OF good] core_slot_Some(1) [OF slot(1)] by (auto simp: slots_wf_def)
  then have "slots_wf (put_slot (sk_interface k) ?slot (c\<lparr>manager := ?m\<rparr>))"
    using slot(1) id' goodD(2) [OF good] by (intro slots_wf_put_slot) simp_all
  then have wf': "slots_wf ?c" using goodD(2) [OF good] by simp
  have "good S (debt + (if unat n \<le> 1 then udp_cost (config c) else 0)) ss ?c
      (qs[ue_queue e := mark_closed (qs ! ue_queue e)])"
    by (rule good_udp_remove [OF good Some dst _ wf'])
      (use slot id' in \<open>simp_all add: kind_at_removed [OF S]\<close>)
  moreover have "ue_queue e < length qs" by (rule udp_wfD(5) [OF goodD(4) [OF good] Some])
  ultimately show ?thesis
    using cost mtu Some closing_mark by (auto simp: eq Let_def freed_def)
qed

lemma udp_drop_good:
  assumes S: "socket_set_laws S" and good: "sh_good S debt ss sh" and us: "SessionUdp us \<in> set ss"
  shows "\<exists>sh'. udp_drop S us sh = Some sh' \<and> sh_good S debt (remove1 (SessionUdp us) ss) sh'"
proof -
  obtain removed c' qs' where un: "udp_unregister S (us_interface us) (us_key us) (sh_core sh, sh_queues sh) =
      Some (removed, c', qs')"
    and good': "good S (debt + unat (freed (config (sh_core sh)) removed)) ss c' qs'"
    and c': "config c' = config (sh_core sh)"
      "mgr_udp (manager c') = hm_remove (us_key us) (mgr_udp (manager (sh_core sh)))"
    using udp_unregister_good [OF S good, of "us_key us"] udp_ownedD(1) [OF goodD(8) [OF good] us] by auto
  let ?c = "case removed of Some mtu \<Rightarrow> release_buffer (udp_per_socket_bytes (config c') mtu) c' | None \<Rightarrow> c'"
  have "good S debt ss ?c qs'" and m: "manager ?c = manager c'"
    using good' good_release [of S debt _ ss c' qs'] c'(1)
    by (cases removed; simp add: freed_def)+
  then have "good S debt (remove1 (SessionUdp us) ss) ?c qs'"
    using udp_owned_remove_udp [of ss "manager c'" qs' us] c'(2)
    by (intro goodI) (auto dest: goodD)
  then show ?thesis by (simp add: udp_drop_def un)
qed

lemma session_drop_good:
  assumes "socket_set_laws S" and "sh_good S debt ss sh" and "s \<in> set ss"
  shows "\<exists>sh'. session_drop S s sh = Some sh' \<and> sh_good S debt (remove1 s ss) sh'"
  using assms by (cases s) (simp_all add: tcp_drop_good udp_drop_good)

text \<open>Dropping several sessions in a row.\<close>

lemma session_drops_good:
  assumes S: "socket_set_laws S" and "sh_good S debt (dropped @ kept) sh"
  shows "\<exists>sh'. for_each (session_drop S) dropped sh = Some sh' \<and> sh_good S debt kept sh'"
proof -
  have "\<exists>sh'. for_each (session_drop S) dropped sh = Some sh' \<and> sh_good S debt ([] @ kept) sh'"
  proof (rule for_each_inv [where I = "\<lambda>ds sh. sh_good S debt (ds @ kept) sh"])
    fix s ds sh assume "sh_good S debt ((s # ds) @ kept) sh"
    from session_drop_good [OF S this, of s]
    show "\<exists>sh'. session_drop S s sh = Some sh' \<and> sh_good S debt (ds @ kept) sh'" by simp
  qed (fact assms(2))
  then show ?thesis by simp
qed

end
