(* ===== verification/Runner_Alloc.thy ===== *)
theory Runner_Alloc
  imports Stream_Ops
begin

text \<open>
  The pre-pass of a poll cycle (\<open>pre_pass\<close>, \<open>alloc_tcp\<close>, \<open>alloc_udp\<close> of \<open>src/src/runner.rs\<close>) keeps the
  invariant and does not panic, and it leaves the devices and the interfaces as they were.
\<close>

section \<open>Slots by index\<close>

lemma core_slot_nth:
  "slots_wf c \<Longrightarrow> i < length (slots c) \<Longrightarrow> core_slot c (slot_id (slots c ! i)) = Some (slots c ! i)"
  by (intro core_slot_in) (simp_all add: slots_wf_def)

lemma update_nth_slot:
  assumes "slots_wf c" and "i < length (slots c)"
  shows "c\<lparr>slots := (slots c)[i := s]\<rparr> = put_slot (slot_id (slots c ! i)) s c"
  using assms by (simp add: put_slot_def slots_wf_def put_first_nth [OF _ assms(2) refl])

lemma kind_at_added:
  assumes S: "socket_set_laws S" and slot: "core_slot c i = Some s"
    and add: "ss_add S (sockets s) sock = (h, socks)"
  shows "slot_id s' = i \<Longrightarrow> sockets s' = socks \<Longrightarrow> kind_at S (put_slot i s' c) j h' =
      (if j = i \<and> h' = h then Some (kind_of sock) else kind_at S c j h')"
    and "kind_at S c i h = None"
proof -
  show "kind_at S (put_slot i s' c) j h' =
      (if j = i \<and> h' = h then Some (kind_of sock) else kind_at S c j h')"
    if "slot_id s' = i" "sockets s' = socks"
    using socket_set_lawsD(3) [OF S, of "sockets s" sock h'] slot that add
    by (auto simp: kind_at_def sock_at_slot sock_at_put_slot)
  show "kind_at S c i h = None"
    using socket_set_lawsD(2) [OF S, of "sockets s" sock] slot add by (simp add: kind_at_def sock_at_slot)
qed

lemma good_same_kinds:
  assumes good: "good S debt ss c qs" and "slots_wf c'"
    and c': "config c' = config c" "manager c' = manager c" "buffer_bytes c' = buffer_bytes c"
    and kinds: "\<And>i h. kind_at S c' i h = kind_at S c i h"
  shows "good S debt ss c' qs"
  using good assms(2-)
  unfolding good_def core_inv_def tcp_wf_def udp_wf_def accounted_def within_cap_def by simp

section \<open>Reservations\<close>

lemma reserve_buffer_result:
  "reserve_buffer n c = (granted, c') \<Longrightarrow>
    slots c' = slots c \<and> config c' = config c \<and> manager c' = manager c"
  by (auto simp: reserve_buffer_def split: option.splits if_splits)

definition over_budget :: "nat \<Rightarrow> ('i, 's, 't) core \<Rightarrow> bool" where
  "over_budget n c \<longleftrightarrow>
     (\<exists>limit. cfg_max_buffer_bytes (config c) = Some limit \<and> unat limit < unat (buffer_bytes c) + n)"

lemma reserve_fits:
  assumes "unat (buffer_bytes c) + unat n < 2 ^ 64" and "within_cap c"
    and "reserve_buffer n c = (granted, c')"
  shows "\<not> granted \<Longrightarrow> c' = c"
    and "granted \<Longrightarrow> c' = c\<lparr>buffer_bytes := buffer_bytes c + n\<rparr>"
    and "granted \<Longrightarrow> unat (buffer_bytes c + n) = unat (buffer_bytes c) + unat n"
    and "granted \<Longrightarrow> within_cap (c\<lparr>buffer_bytes := buffer_bytes c + n\<rparr>)"
    and "granted \<longleftrightarrow> \<not> over_budget (unat n) c"
proof -
  have eq: "reserve_buffer (of_nat (unat n)) c = (granted, c')" using assms(3) by simp
  show "\<not> granted \<Longrightarrow> c' = c" using core_budget.reserve_refused [OF assms(1)] eq by simp
  show "granted \<longleftrightarrow> \<not> over_budget (unat n) c"
    using core_budget.reserve_iff [OF assms(1)] eq by (auto simp: over_budget_def not_less)
  assume granted
  then show c': "c' = c\<lparr>buffer_bytes := buffer_bytes c + n\<rparr>"
    using assms(3) by (auto simp: reserve_buffer_def split: option.splits if_splits)
  show sum: "unat (buffer_bytes c + n) = unat (buffer_bytes c) + unat n"
    using unat_usize_add [OF assms(1)] .
  have "\<forall>l. map_option unat (cfg_max_buffer_bytes (config c)) = Some l \<longrightarrow>
      unat (buffer_bytes c) + unat n \<le> l"
    using core_budget.reserve_granted [OF assms(1)] eq \<open>granted\<close> by simp
  then show "within_cap (c\<lparr>buffer_bytes := buffer_bytes c + n\<rparr>)"
    by (auto simp: within_cap_def word_le_nat_alt sum)
qed

text \<open>While nothing is owed, one more TCP connection and one more shared UDP socket fit the counter.\<close>

lemma mult_room: "a * Suc n \<le> a * m" if "n < (m :: nat)" for a :: nat
  using that by (intro mult_le_mono) auto

lemma tcp_charge_fits:
  assumes good: "good S 0 ss c qs"
    and room: "length (mgr_tcp (manager c)) < unat (cfg_tcp_max_connections (config c))"
  shows "unat (buffer_bytes c) + tcp_cost (config c) < 2 ^ 64"
proof -
  note wf = goodD [OF good]
  have "udp_cost (config c) * length (udp_dst_sockets (manager c))
      \<le> udp_cost (config c) * unat (cfg_udp_max_sessions (config c))"
    using dst_sockets_le_sessions [OF wf(4)] udp_wfD(3) [OF wf(4)] by (intro mult_le_mono) auto
  moreover have "tcp_cost (config c) * length (mgr_tcp (manager c)) + tcp_cost (config c)
      \<le> tcp_cost (config c) * unat (cfg_tcp_max_connections (config c))"
    using mult_room [OF room, of "tcp_cost (config c)"] by simp
  ultimately show ?thesis using wf(1,5) unfolding accounted_def config_ok_def by linarith
qed

lemma udp_charge_fits:
  assumes good: "good S 0 ss c qs"
    and room: "length (mgr_udp (manager c)) < unat (cfg_udp_max_sessions (config c))"
  shows "unat (buffer_bytes c) + udp_cost (config c) < 2 ^ 64"
proof -
  note wf = goodD [OF good]
  have "length (udp_dst_sockets (manager c)) < unat (cfg_udp_max_sessions (config c))"
    using dst_sockets_le_sessions [OF wf(4)] room by simp
  then have "udp_cost (config c) * length (udp_dst_sockets (manager c)) + udp_cost (config c)
      \<le> udp_cost (config c) * unat (cfg_udp_max_sessions (config c))"
    using mult_room [of _ _ "udp_cost (config c)"] by fastforce
  moreover have "tcp_cost (config c) * length (mgr_tcp (manager c))
      \<le> tcp_cost (config c) * unat (cfg_tcp_max_connections (config c))"
    using tcp_wfD(2) [OF wf(3)] by simp
  ultimately show ?thesis using wf(1,5) unfolding accounted_def config_ok_def by linarith
qed

lemma unat_tcp_need:
  assumes "unat (buffer_bytes c) + tcp_cost (config c) < 2 ^ 64"
  shows "unat (2 * cfg_tcp_buffer_size (config c)) = tcp_cost (config c)"
  using assms unat_usize_mult [of 2 "cfg_tcp_buffer_size (config c)"] by (simp add: tcp_cost_def)

section \<open>Allocating a TCP connection\<close>

lemma update_nth_slot_of:
  assumes "slots_wf c" and "i < length (slots c)" and "slots d = slots c"
  shows "d\<lparr>slots := (slots c)[i := s]\<rparr> = put_slot (slot_id (slots c ! i)) s d"
  using assms by (simp add: put_slot_def slots_wf_def put_first_nth [OF _ assms(2) refl])

text \<open>The socket a connection gets, from the pool if it has one, and the endpoint it listens on.\<close>

definition idle_socket :: "('i, 's, 't, 'u, 'x) smoltcp_scheme \<Rightarrow> ('i, 's, 't) interface_slot \<Rightarrow> 't" where
  "idle_socket S slot =
     (case tcp_pool slot of
        s # _ \<Rightarrow> s
      | [] \<Rightarrow> tcp_new S (slot_tcp_buffer_size slot) (slot_tcp_buffer_size slot))"

definition listen_at :: "session_key \<Rightarrow> ip_listen_endpoint" where
  "listen_at key = \<lparr>le_addr = Some (ep_addr (sk_dst key)), le_port = ep_port (sk_dst key)\<rparr>"

text \<open>
  What \<open>alloc_tcp\<close> can do: nothing, when the budget refuses; take a pooled socket and give up on it, when
  it cannot listen; or charge the connection, add a listening socket and register a pending entry.
\<close>

lemma alloc_tcp_cases [consumes 3, case_names refused deaf listening]:
  assumes good: "good S 0 ss c qs" and i: "i < length (slots c)"
    and room: "length (mgr_tcp (manager c)) < unat (cfg_tcp_max_connections (config c))"
  obtains (refused) "over_budget (tcp_cost (config c)) c" and "alloc_tcp S i key c = Some c"
  | (deaf) pool err where "\<not> over_budget (tcp_cost (config c)) c" and "length pool \<le> length (tcp_pool (slots c ! i))"
      and "alloc_tcp S i key c =
        Some (put_slot (slot_id (slots c ! i)) ((slots c ! i)\<lparr>tcp_pool := pool\<rparr>) c)"
      and "tcp_listen S (idle_socket S (slots c ! i)) (listen_at key) = Inl err"
  | (listening) pool sock h socks b where "\<not> over_budget (tcp_cost (config c)) c" and "length pool \<le> length (tcp_pool (slots c ! i))"
      and "ss_add S (sockets (slots c ! i)) (TcpSocket sock) = (h, socks)"
      and "unat b = unat (buffer_bytes c) + tcp_cost (config c)"
      and "within_cap (c\<lparr>buffer_bytes := b\<rparr>)"
      and "alloc_tcp S i key c =
        Some ((put_slot (slot_id (slots c ! i)) ((slots c ! i)\<lparr>tcp_pool := pool, sockets := socks\<rparr>) c)
          \<lparr>buffer_bytes := b, manager := (manager c)\<lparr>mgr_tcp := hm_insert key
            \<lparr>te_handle = h, te_state = TcpPending, te_orphaned = False\<rparr> (mgr_tcp (manager c))\<rparr>\<rparr>)"
      and "tcp_listen S (idle_socket S (slots c ! i)) (listen_at key) = Inr sock"
proof -
  let ?slot = "slots c ! i" and ?need = "2 * slot_tcp_buffer_size (slots c ! i)"
  let ?c1 = "c\<lparr>buffer_bytes := buffer_bytes c + ?need\<rparr>"
  note wf = goodD(2) [OF good]
  have size: "slot_tcp_buffer_size ?slot = cfg_tcp_buffer_size (config c)"
    using wf i by (auto simp: slots_wf_def)
  note fits = tcp_charge_fits [OF good room]
  note need = unat_tcp_need [OF fits]
  obtain granted c1 where reserve: "reserve_buffer ?need c = (granted, c1)" by fastforce
  note r = reserve_fits [OF _ goodD(6) [OF good] reserve, unfolded size need, OF fits, folded size]
  obtain sock pool where take: "(case tcp_pool ?slot of s # rest \<Rightarrow> (s, rest)
      | [] \<Rightarrow> (tcp_new S (slot_tcp_buffer_size ?slot) (slot_tcp_buffer_size ?slot), [])) = (sock, pool)"
    by fastforce
  then have pool: "length pool \<le> length (tcp_pool ?slot)" and idle: "idle_socket S ?slot = sock"
    by (auto simp: idle_socket_def split: list.splits)
  note put = update_nth_slot_of [OF wf i, of ?c1]
  let ?ep = "\<lparr>le_addr = Some (ep_addr (sk_dst key)), le_port = ep_port (sk_dst key)\<rparr>"
  have ep: "listen_at key = ?ep" by (simp add: listen_at_def)
  consider "\<not> granted" | err where granted "tcp_listen S sock ?ep = Inl err"
    | sock' where granted "tcp_listen S sock ?ep = Inr sock'" by (cases "tcp_listen S sock ?ep") auto
  then show thesis
  proof cases
    case 1
    then show ?thesis using refused i r(1,5) by (simp add: alloc_tcp_def reserve)
  next
    case 2
    have "unat (saturating_sub (buffer_bytes c + ?need) ?need) = unat (buffer_bytes c)"
      using r(3) [OF 2(1)] size need by simp
    then have "saturating_sub (buffer_bytes c + ?need) ?need = buffer_bytes c"
      by (rule iffD2 [OF word_unat_eq_iff])
    then show ?thesis using deaf [OF _ pool _ 2(2) [folded ep idle]] 2 i take put r(2,5)
      by (simp add: alloc_tcp_def reserve Let_def split_beta release_buffer_def put_slot_def)
  next
    case 3
    obtain h socks where add: "ss_add S (sockets ?slot) (TcpSocket sock') = (h, socks)" by fastforce
    show ?thesis
      using listening [OF _ pool add _ r(4) _ 3(2) [folded ep idle]] 3 i take put r(2,3,5)
      by (simp add: alloc_tcp_def reserve Let_def split_beta put_slot_def add)
  qed
qed

lemma alloc_tcp_good:
  assumes S: "socket_set_laws S" and good: "good S 0 ss c qs" and i: "i < length (slots c)"
    and key: "sk_interface key = slot_id (slots c ! i)" "sk_proto key = ProtoTcp"
      "hm_get (mgr_tcp (manager c)) key = None"
    and room: "length (mgr_tcp (manager c)) < unat (cfg_tcp_max_connections (config c))"
  shows "\<exists>c'. alloc_tcp S i key c = Some c' \<and> good S 0 ss c' qs"
proof -
  note wf = goodD(2) [OF good]
  note slot = core_slot_nth [OF wf i, folded key(1)]
  have "length (tcp_pool (slots c ! i)) \<le> unat (cfg_tcp_pool_size (config c))"
    using wf i by (simp add: slots_wf_def)
  then have wf': "slots_wf (put_slot (sk_interface key)
      ((slots c ! i)\<lparr>tcp_pool := pool, sockets := ss\<rparr>) c)"
    if "length pool \<le> length (tcp_pool (slots c ! i))" for pool ss
    by (intro slots_wf_put_slot [OF wf slot]) (use key that in simp_all)
  from good i room show ?thesis
  proof (cases rule: alloc_tcp_cases [where key = key])
    case refused
    then show ?thesis using good by simp
  next
    case (deaf pool err)
    have "good S 0 ss (put_slot (sk_interface key) ((slots c ! i)\<lparr>tcp_pool := pool\<rparr>) c) qs"
      by (rule good_same_kinds [OF good])
        (use wf' [OF deaf(2), of "sockets (slots c ! i)"] slot key(1) in
          \<open>auto simp: kind_at_def sock_at_put_slot sock_at_slot\<close>)
    then show ?thesis using deaf(3) key(1) by simp
  next
    case (listening pool sock h socks b)
    let ?put = "put_slot (sk_interface key) ((slots c ! i)\<lparr>tcp_pool := pool, sockets := socks\<rparr>) c"
    let ?e = "\<lparr>te_handle = h, te_state = TcpPending, te_orphaned = False\<rparr>"
    note added = kind_at_added [OF S slot listening(3)]
    have "good S 0 ss (?put\<lparr>buffer_bytes := b, manager := (manager c)
        \<lparr>mgr_tcp := hm_insert key ?e (mgr_tcp (manager c))\<rparr>\<rparr>) qs"
      by (rule good_tcp_insert [OF good key(3,2) room, where e = ?e])
        (use listening(4,5) wf' [OF listening(2)] added key(1) in \<open>simp_all add: within_cap_def\<close>)
    then show ?thesis using listening(6) key(1) by simp
  qed
qed

section \<open>Allocating a UDP session\<close>

definition new_udp_session :: "session_key \<Rightarrow> socket_handle \<Rightarrow> queue_id \<Rightarrow> way_udp_session" where
  "new_udp_session key h q =
     way_udp_session_new (sk_interface key) key h q (to_socket_addr (sk_src key)) (to_socket_addr (sk_dst key))"

lemma new_udp_session_simps [simp]:
  "us_interface (new_udp_session key h q) = sk_interface key"
  "us_key (new_udp_session key h q) = key"
  "us_socket (new_udp_session key h q) = h"
  "us_queue (new_udp_session key h q) = q"
  by (simp_all add: new_udp_session_def way_udp_session_new_def)

text \<open>The registry after a session on the socket \<open>h\<close> with \<open>n\<close> earlier sessions was added.\<close>

definition with_udp ::
    "session_key \<Rightarrow> udp_entry \<Rightarrow> usize \<Rightarrow> session_manager \<Rightarrow> session_manager" where
  "with_udp key e n m =
     m\<lparr>mgr_udp := hm_insert key e (mgr_udp m),
       udp_dst_sockets := hm_insert (sk_interface key, sk_dst key) (ue_socket e, n + 1) (udp_dst_sockets m)\<rparr>"

text \<open>
  What \<open>alloc_udp\<close> can do: nothing, when the budget refuses a new socket; join the socket already bound
  to the destination; or charge a socket, bind it and add it.
\<close>

lemma alloc_udp_cases [consumes 6, case_names refused shared fresh]:
  assumes good: "sh_good S 0 ss sh" and i: "i < length (slots (sh_core sh))"
    and key: "sk_interface key = slot_id (slots (sh_core sh) ! i)"
    and room: "length (mgr_udp (manager (sh_core sh))) < unat (cfg_udp_max_sessions (config (sh_core sh)))"
    and bind: "udp_bind_law S" and port: "ep_port (sk_dst key) \<noteq> 0"
  obtains "hm_get (udp_dst_sockets (manager (sh_core sh))) (sk_interface key, sk_dst key) = None"
      and "over_budget (udp_cost (config (sh_core sh))) (sh_core sh)"
      and "alloc_udp S i key now sh = Some (None, sh)"
  | h n where "hm_get (udp_dst_sockets (manager (sh_core sh))) (sk_interface key, sk_dst key) = Some (h, n)"
      and "alloc_udp S i key now sh =
        Some (Some (SessionUdp (new_udp_session key h (length (sh_queues sh)))),
          sh\<lparr>sh_core := (sh_core sh)\<lparr>manager := with_udp key
              \<lparr>ue_socket = h, ue_queue = length (sh_queues sh), ue_last_activity = now\<rparr> n
              (manager (sh_core sh))\<rparr>,
             sh_queues := sh_queues sh @ [udp_queue_new]\<rparr>)"
  | sock h socks b where
      "hm_get (udp_dst_sockets (manager (sh_core sh))) (sk_interface key, sk_dst key) = None"
      and "\<not> over_budget (udp_cost (config (sh_core sh))) (sh_core sh)"
      and "ss_add S (sockets (slots (sh_core sh) ! i)) (UdpSocket sock) = (h, socks)"
      and "unat b = unat (buffer_bytes (sh_core sh)) + udp_cost (config (sh_core sh))"
      and "within_cap ((sh_core sh)\<lparr>buffer_bytes := b\<rparr>)"
      and "alloc_udp S i key now sh =
        Some (Some (SessionUdp (new_udp_session key h (length (sh_queues sh)))),
          sh\<lparr>sh_core := (put_slot (sk_interface key)
                ((slots (sh_core sh) ! i)\<lparr>sockets := socks\<rparr>) (sh_core sh))
              \<lparr>buffer_bytes := b, manager := with_udp key
                \<lparr>ue_socket = h, ue_queue = length (sh_queues sh), ue_last_activity = now\<rparr> 0
                (manager (sh_core sh))\<rparr>,
             sh_queues := sh_queues sh @ [udp_queue_new]\<rparr>)"
proof -
  let ?c = "sh_core sh"
  let ?slot = "slots ?c ! i" and ?dk = "(sk_interface key, sk_dst key)"
  note wf = goodD(2) [OF good]
  note defs = alloc_udp_def udp_socket_for_def udp_socket_retain_def with_udp_def new_udp_session_def Let_def
  show thesis
  proof (cases "hm_get (udp_dst_sockets (manager ?c)) ?dk")
    case (Some hn)
    obtain h n where hn: "hn = (h, n)" by fastforce
    have "?c\<lparr>slots := slots ?c, manager := m\<rparr> = ?c\<lparr>manager := m\<rparr>" for m by simp
    then show ?thesis using that(2) [of h n] Some i key by (simp add: hn defs list_update_id)
  next
    case None
    let ?n = "udp_per_socket_bytes (config ?c) (slot_mtu ?slot)"
    have mtu: "slot_mtu ?slot = cfg_mtu (config ?c)" using wf i by (auto simp: slots_wf_def)
    note fits = udp_charge_fits [OF good room]
    have cost: "unat ?n = udp_cost (config ?c)"
      using unat_udp_per_socket_bytes [OF goodD(1) [OF good]] room mtu by simp
    obtain granted c1 where reserve: "reserve_buffer ?n ?c = (granted, c1)" by fastforce
    note r = reserve_fits [OF _ goodD(6) [OF good] reserve, unfolded cost, OF fits]
    show ?thesis
    proof (cases granted)
      case False
      then show ?thesis using that(1) r(1,5) None i by (simp add: alloc_udp_def Let_def reserve)
    next
      case True
      let ?c1 = "?c\<lparr>buffer_bytes := buffer_bytes ?c + ?n\<rparr>"
      let ?sizes = "(max (cfg_udp_buffer_packets (config ?c)) 1,
        max (cfg_udp_buffer_bytes (config ?c)) (slot_mtu ?slot))"
      obtain u where u: "udp_bind S (udp_new S ?sizes ?sizes)
          \<lparr>ep_addr = ep_addr (sk_dst key), ep_port = ep_port (sk_dst key)\<rparr> = Inr u"
        using bind port unfolding udp_bind_law_def by (metis ip_endpoint.select_convs(2))
      obtain h socks where add: "ss_add S (sockets ?slot) (UdpSocket u) = (h, socks)" by fastforce
      show ?thesis
        using that(3) [OF None _ add _ r(4)] r(2,3,5) True None i key u update_nth_slot_of [OF wf i, of ?c1]
        by (simp add: defs udp_create_def reserve add put_slot_def)
    qed
  qed
qed

lemma alloc_udp_good:
  assumes S: "socket_set_laws S" and bind: "udp_bind_law S"
    and good: "sh_good S 0 ss sh" and i: "i < length (slots (sh_core sh))"
    and key: "sk_interface key = slot_id (slots (sh_core sh) ! i)" "sk_proto key = ProtoUdp"
      "hm_get (mgr_udp (manager (sh_core sh))) key = None"
    and room: "length (mgr_udp (manager (sh_core sh))) < unat (cfg_udp_max_sessions (config (sh_core sh)))"
    and port: "ep_port (sk_dst key) \<noteq> 0"
  shows "\<exists>s sh'. alloc_udp S i key now sh = Some (s, sh') \<and>
    sh_good S 0 (ss @ (case s of Some s \<Rightarrow> [s] | None \<Rightarrow> [])) sh'"
proof -
  let ?c = "sh_core sh" and ?q = "length (sh_queues sh)"
  note wf = goodD(2) [OF good]
  from good i key(1) room bind port show ?thesis
  proof (cases rule: alloc_udp_cases [where now = now])
    case refused
    then show ?thesis using good by simp
  next
    case (shared h n)
    let ?e = "\<lparr>ue_socket = h, ue_queue = ?q, ue_last_activity = now\<rparr>"
    have "kind_at S ?c (sk_interface key) h = Some UdpKind"
      by (rule udp_wfD(9) [OF goodD(4) [OF good] shared(1)])
    then have "good S 0 (ss @ [SessionUdp (new_udp_session key h ?q)])
        (?c\<lparr>manager := with_udp key ?e n (manager ?c)\<rparr>) (sh_queues sh @ [udp_queue_new])"
      by (intro good_udp_insert [OF good key(3,2) room, where e = ?e and n = n])
        (use shared(1) wf goodD(6) [OF good] in \<open>auto simp: with_udp_def within_cap_def\<close>)
    then show ?thesis using shared(2) by simp
  next
    case (fresh sock h socks b)
    let ?e = "\<lparr>ue_socket = h, ue_queue = ?q, ue_last_activity = now\<rparr>"
    let ?put = "put_slot (sk_interface key) ((slots ?c ! i)\<lparr>sockets := socks\<rparr>) ?c"
    note slot = core_slot_nth [OF wf i, folded key(1)]
    note added = kind_at_added [OF S slot fresh(3)]
    have "slots_wf ?put"
      by (rule slots_wf_put_slot [OF wf slot]) (use key wf i in \<open>auto simp: slots_wf_def\<close>)
    then have "good S 0 (ss @ [SessionUdp (new_udp_session key h ?q)])
        (?put\<lparr>buffer_bytes := b, manager := with_udp key ?e 0 (manager ?c)\<rparr>) (sh_queues sh @ [udp_queue_new])"
      by (intro good_udp_insert [OF good key(3,2) room, where e = ?e and n = 0])
        (use fresh(1,4,5) added key(1) in \<open>simp_all add: with_udp_def within_cap_def\<close>)
    then show ?thesis using fresh(6) by simp
  qed
qed

section \<open>What the pre-pass leaves alone\<close>

definition slot_io :: "('i, 's, 't) interface_slot \<Rightarrow> interface_id \<times> 'i \<times> virtual_device" where
  "slot_io s = (slot_id s, iface s, device s)"

definition same_io :: "('i, 's, 't) core \<Rightarrow> ('i, 's, 't) core \<Rightarrow> bool" where
  "same_io c c' \<longleftrightarrow> config c' = config c \<and> map slot_io (slots c') = map slot_io (slots c)"

lemma same_io_refl [simp]: "same_io c c"
  by (simp add: same_io_def)

lemma same_io_trans: "same_io a b \<Longrightarrow> same_io b c \<Longrightarrow> same_io a c"
  by (simp add: same_io_def)

lemma same_io_length: "same_io c c' \<Longrightarrow> length (slots c') = length (slots c)"
  unfolding same_io_def by (metis length_map)

lemma map_slot_io_update:
  "i < length xs \<Longrightarrow> slot_io s = slot_io (xs ! i) \<Longrightarrow> map slot_io (xs[i := s]) = map slot_io xs"
  by (simp add: map_update list_update_same_conv)

lemma slot_io_frame [frame_simps, simp]:
  "slot_io (s\<lparr>tcp_pool := p\<rparr>) = slot_io s"
  "slot_io (s\<lparr>sockets := x\<rparr>) = slot_io s"
  by (simp_all add: slot_io_def)

lemma alloc_tcp_io: "alloc_tcp S i key c = Some c' \<Longrightarrow> same_io c c'"
proof -
  assume a: "alloc_tcp S i key c = Some c'"
  obtain granted c1 where r: "reserve_buffer (2 * slot_tcp_buffer_size (slots c ! i)) c = (granted, c1)"
    by fastforce
  then have c1: "slots c1 = slots c" "config c1 = config c"
    by (auto dest: reserve_buffer_result)
  show ?thesis
    using a r c1
    by (auto simp: alloc_tcp_def same_io_def map_slot_io_update Let_def
        split: if_splits prod.splits sum.splits)
qed

lemma udp_create_io: "slot_io (snd (udp_create S packets bytes dst slot)) = slot_io slot"
  by (simp add: udp_create_def Let_def split: sum.split prod.split)

lemma udp_socket_for_io:
  "udp_socket_for id' dst (udp_create S packets bytes dst') m slot = (h, m', slot') \<Longrightarrow>
    slot_io slot' = slot_io slot"
  using udp_create_io [of S packets bytes dst' slot]
  by (auto simp: udp_socket_for_def Let_def split: option.splits prod.splits)

lemma alloc_udp_io:
  assumes a: "alloc_udp S i key now sh = Some (s, sh')"
  shows "same_io (sh_core sh) (sh_core sh')"
proof -
  let ?c = "sh_core sh" and ?need = "udp_per_socket_bytes (config (sh_core sh)) (slot_mtu (slots (sh_core sh) ! i))"
  let ?r = "if hm_get (udp_dst_sockets (manager ?c)) (sk_interface key, sk_dst key) = None
    then reserve_buffer ?need ?c else (True, ?c)"
  obtain granted c1 where r: "?r = (granted, c1)" by fastforce
  then have c1: "slots c1 = slots ?c" "config c1 = config ?c"
    by (auto split: if_splits dest: reserve_buffer_result)
  obtain h m slot where f: "udp_socket_for (slot_id (slots ?c ! i)) (sk_dst key)
      (udp_create S (max (cfg_udp_buffer_packets (config ?c)) 1)
        (max (cfg_udp_buffer_bytes (config ?c)) (slot_mtu (slots ?c ! i))) (sk_dst key))
      (manager c1) (slots ?c ! i) = (h, m, slot)" by (metis prod.exhaust)
  show ?thesis
    using a r c1 f udp_socket_for_io [OF f] unfolding alloc_udp_def Let_def
    by (auto simp: same_io_def map_slot_io_update split: if_splits option.splits)
qed

section \<open>The pre-pass\<close>

lemma pre_pass_packet_io:
  "pre_pass_packet S W now i pkt (sh, acc) = Some (sh', acc') \<Longrightarrow> same_io (sh_core sh) (sh_core sh')"
  by (auto simp: pre_pass_packet_def Let_def bind_eq_Some_conv split: option.splits l4.splits if_splits
      dest!: alloc_tcp_io alloc_udp_io)

lemma pre_pass_packet_good:
  assumes S: "socket_set_laws S" and bind: "udp_bind_law S" and W: "wire_laws W"
    and good: "sh_good S 0 (ss @ acc) sh" and i: "i < length (slots (sh_core sh))"
  shows "\<exists>sh' acc'. pre_pass_packet S W now i pkt (sh, acc) = Some (sh', acc') \<and>
    sh_good S 0 (ss @ acc') sh'"
proof (cases "parse_l4 W pkt")
  case None
  then show ?thesis using good by (simp add: pre_pass_packet_def)
next
  case (Some p)
  obtain src dst l4 where p: "p = (src, dst, l4)" by (metis prod.exhaust)
  let ?c = "sh_core sh"
  show ?thesis
  proof (cases l4)
    case (L4_Tcp syn)
    let ?key = "session_key_new (slot_id (slots ?c ! i)) ProtoTcp src dst"
    note alloc = alloc_tcp_good [OF S good i, of ?key]
    show ?thesis
      using alloc good Some p L4_Tcp
      by (auto simp: pre_pass_packet_def Let_def get_tcp_def session_key_new_def not_le)
  next
    case L4_Udp
    let ?key = "session_key_new (slot_id (slots ?c ! i)) ProtoUdp src dst"
    have port: "ep_port dst \<noteq> 0" using parse_l4_dst_port [OF W] Some p by simp
    note alloc = alloc_udp_good [OF S bind good i, of ?key now]
    show ?thesis
    proof (cases "hm_get (mgr_udp (manager ?c)) ?key = None \<and>
        length (mgr_udp (manager ?c)) < unat (cfg_udp_max_sessions (config ?c))")
      case True
      then obtain s sh' where "alloc_udp S i ?key now sh = Some (s, sh')"
        "sh_good S 0 (ss @ (acc @ (case s of Some s \<Rightarrow> [s] | None \<Rightarrow> []))) sh'"
        using alloc port by (auto simp: session_key_new_def)
      then show ?thesis using True Some p L4_Udp
        by (cases s) (auto simp: pre_pass_packet_def Let_def get_udp_def)
    next
      case False
      then show ?thesis using good Some p L4_Udp
        by (auto simp: pre_pass_packet_def Let_def get_udp_def)
    qed
  qed
qed

lemma set_ingress_shape:
  assumes "slots_wf (sh_core sh)" and "i < length (slots (sh_core sh))"
  shows "same_shape S (sh_core sh) (sh_core (set_ingress i pkts sh))"
  by (simp add: set_ingress_def Let_def update_nth_slot [OF assms] slot_meta_def
      same_shape_put_slot [OF core_slot_nth [OF assms]])

lemma set_ingress_simps [simp]:
  "sh_queues (set_ingress i pkts sh) = sh_queues sh"
  "config (sh_core (set_ingress i pkts sh)) = config (sh_core sh)"
  "slots (sh_core (set_ingress i pkts sh)) = (slots (sh_core sh))
     [i := (slots (sh_core sh) ! i)\<lparr>device := (device (slots (sh_core sh) ! i))\<lparr>ingress := pkts\<rparr>\<rparr>]"
  by (simp_all add: set_ingress_def Let_def)

lemma set_ingress_good:
  assumes "sh_good S debt ss sh" and "i < length (slots (sh_core sh))"
  shows "sh_good S debt ss (set_ingress i pkts sh)"
  using good_same_shape [OF set_ingress_shape [OF goodD(2) [OF assms(1)] assms(2)] assms(1)] by simp

lemma same_io_nth:
  "same_io c c' \<Longrightarrow> i < length (slots c) \<Longrightarrow> slot_io (slots c' ! i) = slot_io (slots c ! i)"
  unfolding same_io_def by (metis nth_map length_map)

text \<open>
  While the packets are inspected the queue of the slot is empty and nothing is added to it, so
  appending the packets restores it.
\<close>

lemma set_ingress_restores:
  assumes i: "i < length (slots (sh_core sh))"
    and io: "same_io (sh_core (set_ingress i [] sh)) (sh_core sh')"
  shows "same_io (sh_core sh)
    (sh_core (set_ingress i (ingress (device (slots (sh_core sh') ! i)) @
       ingress (device (slots (sh_core sh) ! i))) sh'))"
proof -
  have i': "i < length (slots (sh_core sh'))" using same_io_length [OF io] i by simp
  have nth: "slot_io (slots (sh_core sh') ! i) =
      slot_io ((slots (sh_core sh) ! i)\<lparr>device := (device (slots (sh_core sh) ! i))\<lparr>ingress := []\<rparr>\<rparr>)"
    using same_io_nth [OF io, of i] i by simp
  then have "device (slots (sh_core sh') ! i) = (device (slots (sh_core sh) ! i))\<lparr>ingress := []\<rparr>"
    and "slot_id (slots (sh_core sh') ! i) = slot_id (slots (sh_core sh) ! i)"
    and "iface (slots (sh_core sh') ! i) = iface (slots (sh_core sh) ! i)"
    by (simp_all add: slot_io_def)
  moreover have "map slot_io (slots (sh_core sh')) = (map slot_io (slots (sh_core sh)))
      [i := slot_io ((slots (sh_core sh) ! i)\<lparr>device := (device (slots (sh_core sh) ! i))\<lparr>ingress := []\<rparr>\<rparr>)]"
    using io by (simp add: same_io_def map_update)
  ultimately show ?thesis
    using io i by (simp add: same_io_def map_update slot_io_def list_update_same_conv)
qed

lemma pre_pass_slot_good:
  assumes S: "socket_set_laws S" and bind: "udp_bind_law S" and W: "wire_laws W"
    and good: "sh_good S 0 (ss @ acc) sh" and i: "i < length (slots (sh_core sh))"
  shows "\<exists>sh' acc'. pre_pass_slot S W now i (sh, acc) = Some (sh', acc') \<and>
    sh_good S 0 (ss @ acc') sh' \<and> same_io (sh_core sh) (sh_core sh')"
proof -
  let ?I = "\<lambda>(sh', acc'). sh_good S 0 (ss @ acc') sh' \<and>
    same_io (sh_core (set_ingress i [] sh)) (sh_core sh')"
  let ?pkts = "ingress (device (slots (sh_core sh) ! i))"
  have step: "\<exists>s'. pre_pass_packet S W now i pkt s = Some s' \<and> ?I s'" if I: "?I s" for pkt s
  proof -
    obtain sh1 acc1 where s: "s = (sh1, acc1)" by fastforce
    have "i < length (slots (sh_core sh1))"
      using I same_io_length [of "sh_core (set_ingress i [] sh)" "sh_core sh1"] i s by simp
    then obtain sh2 acc2 where "pre_pass_packet S W now i pkt (sh1, acc1) = Some (sh2, acc2)"
      "sh_good S 0 (ss @ acc2) sh2"
      using pre_pass_packet_good [OF S bind W] I s by fastforce
    then show ?thesis using pre_pass_packet_io same_io_trans I s by fastforce
  qed
  have "?I (set_ingress i [] sh, acc)" using set_ingress_good [OF good i] by simp
  then have "\<exists>s'. for_each (pre_pass_packet S W now i) ?pkts (set_ingress i [] sh, acc) = Some s' \<and> ?I s'"
    by (rule for_each_keeps) (rule step)
  then obtain sh' acc' where loop:
    "for_each (pre_pass_packet S W now i) ?pkts (set_ingress i [] sh, acc) = Some (sh', acc')"
    "sh_good S 0 (ss @ acc') sh'" and io: "same_io (sh_core (set_ingress i [] sh)) (sh_core sh')"
    by auto
  have "i < length (slots (sh_core sh'))" using same_io_length [OF io] i by simp
  then show ?thesis
    using loop set_ingress_good [OF loop(2)] set_ingress_restores [OF i io]
    by (simp add: pre_pass_slot_def)
qed

lemma pre_pass_good:
  assumes S: "socket_set_laws S" and bind: "udp_bind_law S" and W: "wire_laws W"
    and good: "sh_good S 0 (ss @ acc) sh"
  shows "\<exists>sh' acc'. pre_pass S W now (sh, acc) = Some (sh', acc') \<and>
    sh_good S 0 (ss @ acc') sh' \<and> same_io (sh_core sh) (sh_core sh')"
proof -
  let ?I = "\<lambda>(sh', acc'). sh_good S 0 (ss @ acc') sh' \<and> same_io (sh_core sh) (sh_core sh')"
  have step: "\<exists>s'. pre_pass_slot S W now i s = Some s' \<and> ?I s'"
    if I: "?I s" and i: "i \<in> set [0..<length (slots (sh_core sh))]" for i s
  proof -
    obtain sh1 acc1 where s: "s = (sh1, acc1)" by fastforce
    have "i < length (slots (sh_core sh1))"
      using I i same_io_length [of "sh_core sh" "sh_core sh1"] s by simp
    then show ?thesis using pre_pass_slot_good [OF S bind W, of ss acc1 sh1 i now] I s
      by (auto intro: same_io_trans)
  qed
  have "?I (sh, acc)" using good by simp
  then have "\<exists>s'. for_each (pre_pass_slot S W now) [0..<length (slots (sh_core sh))] (sh, acc) = Some s' \<and> ?I s'"
    by (rule for_each_keeps) (rule step)
  then show ?thesis by (auto simp: pre_pass_def)
qed

end
