(* ===== verification/Runner_Tcp.thy ===== *)
theory Runner_Tcp
  imports Runner_Alloc
begin

text \<open>
  The poll of the interfaces and the TCP half of the post-pass: the state transitions of the entries,
  which sessions are handed out, and the reaping of orphaned connections. The loop over the hash map
  is related to a specification that looks at each entry on its own.
\<close>

section \<open>Polling\<close>

lemma slot_meta_frame [frame_simps, simp]:
  "slot_meta (s\<lparr>iface := a\<rparr>) = slot_meta s"
  "slot_meta (s\<lparr>device := b\<rparr>) = slot_meta s"
  "slot_meta (s\<lparr>sockets := x\<rparr>) = slot_meta s"
  by (simp_all add: slot_meta_def)

lemma poll_slots_shape:
  assumes "poll_laws S"
  shows "same_shape S c (poll_slots S now c)"
  unfolding poll_slots_def
  by (rule same_shape_map_slots)
    (auto simp: poll_slot_def poll_lawsD(2) [OF assms] split: prod.split)

section \<open>One entry\<close>

text \<open>The bookkeeping state of an entry after a poll, from the state of its socket.\<close>

fun next_state :: "tcp_fsm \<Rightarrow> tcp_state \<Rightarrow> tcp_state" where
  "next_state fsm TcpPending = (if fsm = FsmEstablished then TcpEstablished else TcpPending)"
| "next_state fsm TcpEstablished =
     (if fsm \<in> {FsmClosed, FsmTimeWait, FsmListen} then TcpClosed else TcpEstablished)"
| "next_state fsm TcpClosed = TcpClosed"

definition next_entry :: "tcp_fsm \<Rightarrow> tcp_entry \<Rightarrow> tcp_entry" where
  "next_entry fsm e = e\<lparr>te_state := next_state fsm (te_state e)\<rparr>"

definition new_tcp_stream :: "session_key \<Rightarrow> tcp_entry \<Rightarrow> way_tcp_stream" where
  "new_tcp_stream key e =
     way_tcp_stream_new (sk_interface key) key (te_handle e) (to_socket_addr (sk_src key)) (to_socket_addr (sk_dst key))"

definition handed_out :: "tcp_fsm \<Rightarrow> session_key \<Rightarrow> tcp_entry \<Rightarrow> session list" where
  "handed_out fsm key e =
     (if te_state e = TcpPending \<and> fsm = FsmEstablished then [SessionTcp (new_tcp_stream key e)] else [])"

definition reapable :: "tcp_fsm \<Rightarrow> session_key \<Rightarrow> tcp_entry \<Rightarrow> session_key list" where
  "reapable fsm key e = (if te_orphaned e \<and> fsm = FsmClosed then [key] else [])"

lemma new_tcp_stream_simps [simp]:
  "ts_interface (new_tcp_stream key e) = sk_interface key"
  "ts_key (new_tcp_stream key e) = key"
  "ts_handle (new_tcp_stream key e) = te_handle e"
  by (simp_all add: new_tcp_stream_def way_tcp_stream_new_def)

lemma next_entry_simps [simp]:
  "te_handle (next_entry fsm e) = te_handle e"
  "te_orphaned (next_entry fsm e) = te_orphaned e"
  "te_state (next_entry fsm e) = next_state fsm (te_state e)"
  by (simp_all add: next_entry_def)

lemma next_state_Pending: "next_state fsm s = TcpPending \<longleftrightarrow> s = TcpPending \<and> fsm \<noteq> FsmEstablished"
  by (cases s) auto

text \<open>The state of the socket behind an entry.\<close>

definition fsm_at ::
    "('i, 's, 't, 'u, 'x) smoltcp_scheme \<Rightarrow> ('i, 's, 't) core \<Rightarrow> session_key \<Rightarrow> tcp_entry \<Rightarrow> tcp_fsm option" where
  "fsm_at S c key e =
     Option.bind (core_slot c (sk_interface key))
       (\<lambda>slot. map_option (tcp_fsm_of S) (get_mut_tcp S (sockets slot) (te_handle e)))"

definition set_tcp :: "(session_key, tcp_entry) hash_map \<Rightarrow> ('i, 's, 't) core \<Rightarrow> ('i, 's, 't) core" where
  "set_tcp tcp c = c\<lparr>manager := (manager c)\<lparr>mgr_tcp := tcp\<rparr>\<rparr>"

lemma set_tcp_simps [simp]:
  "slots (set_tcp tcp c) = slots c"
  "config (set_tcp tcp c) = config c"
  "buffer_bytes (set_tcp tcp c) = buffer_bytes c"
  "mgr_tcp (manager (set_tcp tcp c)) = tcp"
  "mgr_udp (manager (set_tcp tcp c)) = mgr_udp (manager c)"
  "udp_dst_sockets (manager (set_tcp tcp c)) = udp_dst_sockets (manager c)"
  "set_tcp tcp' (set_tcp tcp c) = set_tcp tcp' c"
  "set_tcp (mgr_tcp (manager c)) c = c"
  "fsm_at S (set_tcp tcp c) key e = fsm_at S c key e"
  by (simp_all add: set_tcp_def fsm_at_def)

lemma fsm_at_Some:
  assumes "tcp_wf S c" and "hm_get (mgr_tcp (manager c)) k = Some e"
  shows "\<exists>fsm. fsm_at S c k e = Some fsm"
  using tcp_wfD(4) [OF assms] by (auto simp: kind_at_TcpKind fsm_at_def)

lemma tcp_transition_eq:
  assumes "fsm_at S c k e = Some fsm"
  shows "tcp_transition S (k, e) (c, acc, reap) =
    Some (set_tcp (hm_insert k (next_entry fsm e) (mgr_tcp (manager c))) c,
      acc @ handed_out fsm k e, reap @ reapable fsm k e)"
proof -
  obtain slot t where t: "core_slot c (sk_interface k) = Some slot"
    "get_mut_tcp S (sockets slot) (te_handle e) = Some t" "fsm = tcp_fsm_of S t"
    using assms by (auto simp: fsm_at_def bind_eq_Some_conv)
  obtain h st orphaned where "e = \<lparr>te_handle = h, te_state = st, te_orphaned = orphaned\<rparr>"
    by (cases e) blast
  then show ?thesis
    using t by (cases st)
      (auto simp: tcp_transition_def next_entry_def handed_out_def reapable_def set_tcp_def
        new_tcp_stream_def Let_def)
qed

lemma tcp_owned_update:
  assumes owned: "tcp_owned ss m" and get: "hm_get (mgr_tcp m) k = Some e"
    and e': "te_handle e' = te_handle e" "te_orphaned e' = te_orphaned e"
      "te_state e' = TcpPending \<longleftrightarrow> te_state e = TcpPending"
    and m': "mgr_tcp m' = hm_insert k e' (mgr_tcp m)"
  shows "tcp_owned ss m'"
  unfolding tcp_owned_def
proof (intro conjI allI impI)
  fix st assume st: "SessionTcp st \<in> set ss"
  show "ts_interface st = sk_interface (ts_key st)" by (rule tcp_ownedD(1) [OF owned st])
  show "\<exists>e. hm_get (mgr_tcp m') (ts_key st) = Some e \<and> te_handle e = ts_handle st \<and>
      \<not> te_orphaned e \<and> te_state e \<noteq> TcpPending"
    using tcp_ownedD(2) [OF owned st] get e' by (cases "ts_key st = k") (auto simp: m')
next
  fix k' e'' assume "hm_get (mgr_tcp m') k' = Some e''" "\<not> te_orphaned e''" "te_state e'' \<noteq> TcpPending"
  then show "\<exists>st. SessionTcp st \<in> set ss \<and> ts_key st = k'"
    using tcp_ownedD(3) [OF owned, of k'] get e' by (auto simp: m' split: if_splits)
qed (rule tcp_ownedD(4) [OF owned])

lemma tcp_transition_good:
  assumes good: "good S debt (ss @ acc) c qs" and get: "hm_get (mgr_tcp (manager c)) k = Some e"
  shows "good S debt (ss @ acc @ handed_out fsm k e)
    (set_tcp (hm_insert k (next_entry fsm e) (mgr_tcp (manager c))) c) qs"
  unfolding set_tcp_def
proof (rule good_tcp_update [OF good get])
  let ?m = "(manager c)\<lparr>mgr_tcp := hm_insert k (next_entry fsm e) (mgr_tcp (manager c))\<rparr>"
  note orphan = tcp_wfD(5) [OF goodD(3) [OF good] get]
  show "te_orphaned (next_entry fsm e) \<Longrightarrow> te_state (next_entry fsm e) \<noteq> TcpPending"
    using orphan by (simp add: next_state_Pending)
  show "udp_owned (ss @ acc @ handed_out fsm k e) ?m qs"
    using goodD(8) [OF good] by (auto simp: udp_owned_def handed_out_def)
  show "tcp_owned (ss @ acc @ handed_out fsm k e) ?m"
  proof (cases "te_state e = TcpPending \<and> fsm = FsmEstablished")
    case True
    have "tcp_owned ((ss @ acc) @ [SessionTcp (new_tcp_stream k e)]) ?m"
      by (intro tcp_owned_add [OF goodD(7) [OF good] get])
        (use True orphan in \<open>auto simp: next_entry_def\<close>)
    then show ?thesis using True by (simp add: handed_out_def)
  next
    case False
    have "tcp_owned (ss @ acc) ?m"
      by (rule tcp_owned_update [OF goodD(7) [OF good] get, where e' = "next_entry fsm e"])
        (use False in \<open>auto simp: next_state_Pending\<close>)
    then show ?thesis using False by (auto simp: handed_out_def)
  qed
qed simp_all

section \<open>The loop over the entries\<close>

text \<open>What the loop does, entry by entry, over the sockets of the state it started in.\<close>

definition handed_out_at ::
    "('i, 's, 't, 'u, 'x) smoltcp_scheme \<Rightarrow> ('i, 's, 't) core \<Rightarrow> session_key \<times> tcp_entry \<Rightarrow> session list" where
  "handed_out_at S c = (\<lambda>(k, e). case fsm_at S c k e of Some fsm \<Rightarrow> handed_out fsm k e | None \<Rightarrow> [])"

definition reapable_at ::
    "('i, 's, 't, 'u, 'x) smoltcp_scheme \<Rightarrow> ('i, 's, 't) core \<Rightarrow> session_key \<times> tcp_entry \<Rightarrow> session_key list" where
  "reapable_at S c = (\<lambda>(k, e). case fsm_at S c k e of Some fsm \<Rightarrow> reapable fsm k e | None \<Rightarrow> [])"

definition next_entry_at ::
    "('i, 's, 't, 'u, 'x) smoltcp_scheme \<Rightarrow> ('i, 's, 't) core \<Rightarrow> session_key \<Rightarrow> tcp_entry \<Rightarrow> tcp_entry" where
  "next_entry_at S c k e = (case fsm_at S c k e of Some fsm \<Rightarrow> next_entry fsm e | None \<Rightarrow> e)"

lemma tcp_transitions_loop:
  assumes good: "good S debt (ss @ acc) c qs"
    and es: "distinct (map fst es)" "\<And>k e. (k, e) \<in> set es \<Longrightarrow> hm_get (mgr_tcp (manager c)) k = Some e"
  shows "\<exists>tcp. for_each (tcp_transition S) es (c, acc, reap) =
      Some (set_tcp tcp c, acc @ concat (map (handed_out_at S c) es), reap @ concat (map (reapable_at S c) es)) \<and>
    good S debt (ss @ acc @ concat (map (handed_out_at S c) es)) (set_tcp tcp c) qs \<and>
    (\<forall>k. hm_get tcp k = (if k \<in> fst ` set es
       then map_option (next_entry_at S c k) (hm_get (mgr_tcp (manager c)) k)
       else hm_get (mgr_tcp (manager c)) k))"
  using assms
proof (induction es arbitrary: c acc reap)
  case Nil
  then show ?case by (intro exI [of _ "mgr_tcp (manager c)"]) simp
next
  case (Cons x es)
  obtain k e where x: "x = (k, e)" by fastforce
  have get: "hm_get (mgr_tcp (manager c)) k = Some e" using Cons.prems(3) x by simp
  obtain fsm where fsm: "fsm_at S c k e = Some fsm"
    using fsm_at_Some [OF goodD(3) [OF Cons.prems(1)] get] by blast
  let ?c = "set_tcp (hm_insert k (next_entry fsm e) (mgr_tcp (manager c))) c"
  have at: "handed_out_at S ?c = handed_out_at S c" "reapable_at S ?c = reapable_at S c"
    "next_entry_at S ?c = next_entry_at S c"
    by (simp_all add: handed_out_at_def reapable_at_def next_entry_at_def fun_eq_iff)
  have here: "handed_out_at S c x = handed_out fsm k e" "reapable_at S c x = reapable fsm k e"
    "next_entry_at S c k e = next_entry fsm e"
    by (simp_all add: x fsm handed_out_at_def reapable_at_def next_entry_at_def)
  have "good S debt (ss @ (acc @ handed_out fsm k e)) ?c qs"
    using tcp_transition_good [OF Cons.prems(1) get] by simp
  moreover have "k \<notin> fst ` set es" using Cons.prems(2) x by simp
  moreover from this have "hm_get (mgr_tcp (manager ?c)) k' = Some e'" if "(k', e') \<in> set es" for k' e'
    using Cons.prems(3) [of k' e'] that by force
  ultimately obtain tcp where
    "for_each (tcp_transition S) es (?c, acc @ handed_out fsm k e, reap @ reapable fsm k e) =
      Some (set_tcp tcp ?c, (acc @ handed_out fsm k e) @ concat (map (handed_out_at S ?c) es),
        (reap @ reapable fsm k e) @ concat (map (reapable_at S ?c) es))"
    "good S debt (ss @ (acc @ handed_out fsm k e) @ concat (map (handed_out_at S ?c) es)) (set_tcp tcp ?c) qs"
    "\<forall>k'. hm_get tcp k' = (if k' \<in> fst ` set es
       then map_option (next_entry_at S ?c k') (hm_get (mgr_tcp (manager ?c)) k')
       else hm_get (mgr_tcp (manager ?c)) k')"
    using Cons.IH [of "acc @ handed_out fsm k e" ?c "reap @ reapable fsm k e"] Cons.prems(2) x by auto
  then show ?case
    using \<open>k \<notin> fst ` set es\<close> get
    by (intro exI [of _ tcp]) (auto simp: tcp_transition_eq [OF fsm] x at here [unfolded x])
qed

lemma tcp_transitions_result:
  assumes good: "good S debt (ss @ acc) c qs"
  shows "\<exists>tcp. tcp_transitions S ord (c, acc) =
      Some (set_tcp tcp c,
        acc @ concat (map (handed_out_at S c) (hm_iter (ord_tcp ord) (mgr_tcp (manager c)))),
        concat (map (reapable_at S c) (hm_iter (ord_tcp ord) (mgr_tcp (manager c))))) \<and>
    good S debt (ss @ acc @ concat (map (handed_out_at S c) (hm_iter (ord_tcp ord) (mgr_tcp (manager c)))))
      (set_tcp tcp c) qs \<and>
    (\<forall>k. hm_get tcp k = map_option (next_entry_at S c k) (hm_get (mgr_tcp (manager c)) k))"
proof -
  let ?tcp = "mgr_tcp (manager c)"
  let ?es = "hm_iter (ord_tcp ord) ?tcp"
  have wf: "hm_wf ?tcp" using tcp_wfD(1) [OF goodD(3) [OF good]] .
  have get: "hm_get ?tcp k = Some e" if "(k, e) \<in> set ?es" for k e
    using that by (intro map_of_is_SomeI [OF wf]) simp
  have dist: "distinct (map fst ?es)" using wf by simp
  obtain tcp where
    "for_each (tcp_transition S) ?es (c, acc, []) =
      Some (set_tcp tcp c, acc @ concat (map (handed_out_at S c) ?es), [] @ concat (map (reapable_at S c) ?es))"
    "good S debt (ss @ acc @ concat (map (handed_out_at S c) ?es)) (set_tcp tcp c) qs"
    "\<forall>k. hm_get tcp k = (if k \<in> fst ` set ?es
       then map_option (next_entry_at S c k) (hm_get ?tcp k) else hm_get ?tcp k)"
    using tcp_transitions_loop [OF good dist get, of "[]"] by blast
  moreover have "hm_get ?tcp k = None" if "k \<notin> fst ` set ?es" for k
    using that by (simp add: map_of_eq_None_iff)
  ultimately show ?thesis by (auto simp: tcp_transitions_def)
qed

section \<open>Reaping\<close>

lemma debt_bound:
  assumes "good S debt ss c qs"
  shows "debt + tcp_cost (config c) * length (mgr_tcp (manager c)) < 2 ^ 64"
  using goodD(5) [OF assms] unat_usize_bound [of "buffer_bytes c"] by (simp add: accounted_def)

lemma released_add:
  fixes rel n :: usize
  assumes "unat rel + cost < 2 ^ 64" and "unat n = cost"
  shows "unat (rel + n) = unat rel + cost"
  using assms unat_usize_add by metis

text \<open>What reaping TCP connections leaves alone: everything about UDP, and the devices.\<close>

definition same_udp ::
    "('i, 's, 't, 'u, 'x) smoltcp_scheme \<Rightarrow> ('i, 's, 't) core \<Rightarrow> ('i, 's, 't) core \<Rightarrow> bool" where
  "same_udp S c c' \<longleftrightarrow>
     same_io c c' \<and> mgr_udp (manager c') = mgr_udp (manager c) \<and>
     udp_dst_sockets (manager c') = udp_dst_sockets (manager c) \<and>
     (\<forall>i h u. sock_at S c i h = Some (UdpSocket u) \<longrightarrow> sock_at S c' i h = Some (UdpSocket u))"

lemma same_udp_refl [simp]: "same_udp S c c"
  by (simp add: same_udp_def)

lemma same_udp_trans: "same_udp S a b \<Longrightarrow> same_udp S b c \<Longrightarrow> same_udp S a c"
  by (auto simp: same_udp_def intro: same_io_trans)

lemma same_udp_set_tcp [simp]: "same_udp S c (set_tcp tcp c)"
  by (simp add: same_udp_def same_io_def set_tcp_def sock_at_def)

lemma map_slot_io_put_first:
  "find (\<lambda>x. slot_id x = i) xs = Some s \<Longrightarrow> slot_io s' = slot_io s \<Longrightarrow>
    map slot_io (put_first i s' xs) = map slot_io xs"
  by (induction xs) (auto split: if_splits)

lemma same_udp_remove_tcp:
  assumes S: "socket_set_laws S" and slot: "core_slot c i = Some s" "ss_get S (sockets s) h = Some (TcpSocket t)"
    and s': "slot_io s' = slot_io s" "sockets s' = ss_remove S (sockets s) h"
    and c': "config c' = config c" "slots c' = slots c" "mgr_udp (manager c') = mgr_udp (manager c)"
      "udp_dst_sockets (manager c') = udp_dst_sockets (manager c)"
  shows "same_udp S c (put_slot i s' c')"
proof -
  have cs: "core_slot c' j = core_slot c j" for j using c'(2) by (rule core_slot_cong)
  have "slot_id s' = i" using s'(1) core_slot_Some(2) [OF slot(1)] by (simp add: slot_io_def)
  then have at: "sock_at S (put_slot i s' c') j h' =
      (if j = i then ss_get S (ss_remove S (sockets s) h) h' else sock_at S c' j h')" for j h'
    using slot(1) s'(2) by (simp add: sock_at_put_slot cs)
  have "sock_at S (put_slot i s' c') j h' = Some (UdpSocket u)" if "sock_at S c j h' = Some (UdpSocket u)" for j h' u
    using that slot socket_set_lawsD(5) [OF S, of "sockets s" h h'] unfolding at
    by (auto simp: sock_at_def cs)
  moreover have "map slot_io (slots (put_slot i s' c')) = map slot_io (slots c)"
    using slot(1) s'(1) c'(2) by (simp add: put_slot_def core_slot_def map_slot_io_put_first)
  ultimately show ?thesis using c' by (simp add: same_udp_def same_io_def)
qed

lemma tcp_reap_one_good:
  assumes S: "socket_set_laws S" and good: "good S (unat rel) ss c qs"
    and orphaned: "\<And>e. hm_get (mgr_tcp (manager c)) k = Some e \<Longrightarrow> te_orphaned e"
  shows "\<exists>c' rel'. tcp_reap_one S k (c, rel) = Some (c', rel') \<and> good S (unat rel') ss c' qs \<and>
    mgr_tcp (manager c') = hm_remove k (mgr_tcp (manager c)) \<and> same_udp S c c'"
proof (cases "hm_get (mgr_tcp (manager c)) k")
  case None
  then have "hm_remove k (mgr_tcp (manager c)) = mgr_tcp (manager c)"
    by (simp add: map_of_eq_None_iff)
  then show ?thesis using None good by (simp add: tcp_reap_one_def)
next
  case (Some e)
  note wf = goodD(2) [OF good] and tcp = tcp_wfD [OF goodD(3) [OF good]]
  obtain slot t where slot: "core_slot c (sk_interface k) = Some slot"
    and t: "ss_get S (sockets slot) (te_handle e) = Some (TcpSocket t)"
    using tcp(4) [OF Some] by (auto simp: kind_at_TcpKind get_mut_tcp_Some)
  define pool where "pool =
    (if length (tcp_pool slot) < unat (slot_tcp_pool_max slot) then tcp_pool slot @ [t] else tcp_pool slot)"
  let ?slot = "slot\<lparr>sockets := ss_remove S (sockets slot) (te_handle e), tcp_pool := pool\<rparr>"
  let ?c1 = "c\<lparr>manager := (manager c)\<lparr>mgr_tcp := hm_remove k (mgr_tcp (manager c))\<rparr>\<rparr>"
  let ?c = "put_slot (sk_interface k) ?slot ?c1"
  have id': "slot_id slot = sk_interface k" using slot by (rule core_slot_Some)
  have meta: "slot_tcp_buffer_size slot = cfg_tcp_buffer_size (config c)"
    "slot_tcp_pool_max slot = cfg_tcp_pool_size (config c)"
    "length (tcp_pool slot) \<le> unat (cfg_tcp_pool_size (config c))"
    using wf core_slot_Some(1) [OF slot] by (auto simp: slots_wf_def)
  have "0 < length (mgr_tcp (manager c))" using Some by (cases "mgr_tcp (manager c)") auto
  then have bound: "unat rel + tcp_cost (config c) < 2 ^ 64"
    using debt_bound [OF good] by (cases "length (mgr_tcp (manager c))") auto
  then have "unat (2 * slot_tcp_buffer_size slot) = tcp_cost (config c)"
    unfolding meta(1) using unat_usize_mult [of 2 "cfg_tcp_buffer_size (config c)"] by (simp add: tcp_cost_def)
  note sum = released_add [OF bound this]
  have "slots_wf ?c"
    by (rule slots_wf_put_slot [where s = slot]) (use slot wf id' meta in \<open>auto simp: pool_def\<close>)
  then have "good S (unat rel + tcp_cost (config c)) ss ?c qs"
    by (intro good_tcp_remove [OF good Some orphaned [OF Some]])
      (use slot id' t in \<open>simp_all add: kind_at_removed [OF S, where s = slot and h = "te_handle e"]\<close>)
  moreover have "tcp_reap_one S k (c, rel) = Some (?c, rel + 2 * slot_tcp_buffer_size slot)"
    using Some slot t by (simp add: tcp_reap_one_def pool_def)
  moreover have "same_udp S c ?c"
    by (rule same_udp_remove_tcp [OF S slot t]) simp_all
  ultimately show ?thesis using sum by simp
qed

lemma tcp_reap_good:
  assumes S: "socket_set_laws S" and good: "good S (unat rel) ss c qs"
    and orphaned: "\<And>k e. k \<in> set ks \<Longrightarrow> hm_get (mgr_tcp (manager c)) k = Some e \<Longrightarrow> te_orphaned e"
  shows "\<exists>c' rel'. for_each (tcp_reap_one S) ks (c, rel) = Some (c', rel') \<and> good S (unat rel') ss c' qs \<and>
    same_udp S c c' \<and>
    (\<forall>k. hm_get (mgr_tcp (manager c')) k = (if k \<in> set ks then None else hm_get (mgr_tcp (manager c)) k))"
  using good orphaned
proof (induction ks arbitrary: c rel)
  case Nil
  then show ?case by simp
next
  case (Cons k ks)
  obtain c1 rel1 where one: "tcp_reap_one S k (c, rel) = Some (c1, rel1)"
    "good S (unat rel1) ss c1 qs" "mgr_tcp (manager c1) = hm_remove k (mgr_tcp (manager c))"
    "same_udp S c c1"
    using tcp_reap_one_good [OF S Cons.prems(1), of k] Cons.prems(2) [of k] by auto
  have "te_orphaned e" if "k' \<in> set ks" "hm_get (mgr_tcp (manager c1)) k' = Some e" for k' e
    using Cons.prems(2) [of k' e] that by (auto simp: one(3) split: if_splits)
  then obtain c' rel' where "for_each (tcp_reap_one S) ks (c1, rel1) = Some (c', rel')"
    "good S (unat rel') ss c' qs" "same_udp S c1 c'"
    "\<forall>k. hm_get (mgr_tcp (manager c')) k = (if k \<in> set ks then None else hm_get (mgr_tcp (manager c1)) k)"
    using Cons.IH [OF one(2)] by blast
  then show ?case using one same_udp_trans [OF one(4)] by auto
qed

text \<open>The keys collected by the transitions are orphaned entries, as \<open>tcp_reap_good\<close> asks.\<close>

lemma reapable_orphaned:
  assumes wf: "hm_wf tcp" and k: "k \<in> set (concat (map (reapable_at S c) (hm_iter r tcp)))"
    and get: "map_option (next_entry_at S c k) (hm_get tcp k) = Some e"
  shows "te_orphaned e"
proof -
  obtain e0 where e0: "(k, e0) \<in> set tcp" "te_orphaned e0"
    using k by (auto simp: reapable_at_def reapable_def split: option.splits if_splits)
  have "hm_get tcp k = Some e0" by (rule map_of_is_SomeI [OF wf e0(1)])
  then show ?thesis using get e0(2) by (auto simp: next_entry_at_def split: option.splits)
qed

end
