(* ===== verification/Runner_Udp.thy ===== *)
theory Runner_Udp
  imports Runner_Tcp
begin

text \<open>
  The UDP half of the post-pass: draining the shared sockets ends and returns every datagram that was
  buffered, each datagram goes to the queue of the session it is keyed for and in arrival order, and
  the sweep removes exactly the expired sessions.
\<close>

section \<open>Draining one socket\<close>

lemma udp_drain_total:
  assumes progress: "udp_recv_progress S queued"
  shows "\<exists>got u'. udp_drain S u = Some (got, u') \<and> (\<exists>u0. udp_recv S u0 = (Inl RecvExhausted, u'))"
proof (induction u rule: measure_induct_rule [where f = queued])
  case (less u)
  obtain r u1 where recv: "udp_recv S u = (r, u1)" by fastforce
  show ?case
  proof (cases "r = Inl RecvExhausted")
    case True
    then show ?thesis using recv by (subst udp_drain.simps) auto
  next
    case False
    then have "queued u1 < queued u" using progress recv by (auto simp: udp_recv_progress_def)
    from less [OF this] obtain got u' where "udp_drain S u1 = Some (got, u')"
      "\<exists>u0. udp_recv S u0 = (Inl RecvExhausted, u')" by blast
    moreover have "r = Inl RecvTruncated \<or> (\<exists>d. r = Inr d)"
      using False by (metis sum.exhaust udp_recv_error.exhaust)
    ultimately show ?thesis using recv by (subst udp_drain.simps) auto
  qed
qed

definition keyed :: "interface_id \<Rightarrow> ip_endpoint \<Rightarrow> bytes \<times> ip_endpoint \<Rightarrow> session_key \<times> bytes" where
  "keyed id' bound = (\<lambda>(payload, src). (session_key_new id' ProtoUdp src bound, payload))"

definition drained ::
    "('i, 's, 't, 'u, 'x) smoltcp_scheme \<Rightarrow> ('i, 's, 't) interface_slot \<Rightarrow> socket_handle \<Rightarrow>
     (bytes \<times> ip_endpoint) list" where
  "drained S slot h =
     (case Option.bind (get_mut_udp S (sockets slot) h) (udp_drain S) of Some (got, u) \<Rightarrow> got | None \<Rightarrow> [])"

definition same_slot ::
    "('i, 's, 't, 'u, 'x) smoltcp_scheme \<Rightarrow> ('i, 's, 't) interface_slot \<Rightarrow> ('i, 's, 't) interface_slot \<Rightarrow> bool" where
  "same_slot S s s' \<longleftrightarrow> slot_meta s' = slot_meta s \<and> slot_io s' = slot_io s \<and>
     (\<forall>h. map_option kind_of (ss_get S (sockets s') h) = map_option kind_of (ss_get S (sockets s) h))"

lemma same_slot_refl [simp]: "same_slot S s s"
  by (simp add: same_slot_def)

lemma same_slot_trans: "same_slot S a b \<Longrightarrow> same_slot S b c \<Longrightarrow> same_slot S a c"
  by (simp add: same_slot_def)

lemma same_slot_id: "same_slot S s s' \<Longrightarrow> slot_id s' = slot_id s"
  by (simp add: same_slot_def slot_meta_def)

lemma ip_endpoint_eta [simp]: "\<lparr>ep_addr = ep_addr e, ep_port = ep_port e\<rparr> = (e :: ip_endpoint)"
  by simp

lemma drain_socket_eq:
  assumes S: "socket_set_laws S" and progress: "udp_recv_progress S queued"
    and u: "get_mut_udp S (sockets slot) h = Some u"
  shows "\<exists>slot'. drain_socket S (h, bound) (slot, routed) =
      Some (slot', routed @ map (keyed (slot_id slot) bound) (drained S slot h)) \<and>
    same_slot S slot slot' \<and> (\<forall>h'. h' \<noteq> h \<longrightarrow> drained S slot' h' = drained S slot h' \<and>
      get_mut_udp S (sockets slot') h' = get_mut_udp S (sockets slot) h')"
proof -
  obtain got u' where drain: "udp_drain S u = Some (got, u')" using udp_drain_total [OF progress] by blast
  let ?slot = "slot\<lparr>sockets := ss_put S (sockets slot) h (UdpSocket u')\<rparr>"
  have "ss_get S (sockets slot) h = Some (UdpSocket u)" using u by (simp add: get_mut_udp_Some)
  then have put: "ss_get S (sockets ?slot) h' = (if h' = h then Some (UdpSocket u') else ss_get S (sockets slot) h')" for h'
    by (simp add: socket_set_lawsD(4) [OF S])
  have "same_slot S slot ?slot"
    using put \<open>ss_get S (sockets slot) h = Some (UdpSocket u)\<close> by (simp add: same_slot_def)
  moreover have "drain_socket S (h, bound) (slot, routed) =
      Some (?slot, routed @ map (keyed (slot_id slot) bound) (drained S slot h))"
    using u drain by (simp add: drain_socket_def drained_def keyed_def)
  ultimately show ?thesis using put by (auto simp: drained_def get_mut_udp_def)
qed

lemma drain_sockets_loop:
  assumes S: "socket_set_laws S" and progress: "udp_recv_progress S queued"
    and hs: "distinct (map fst hs)" "\<And>h b. (h, b) \<in> set hs \<Longrightarrow> get_mut_udp S (sockets slot) h \<noteq> None"
  shows "\<exists>slot'. for_each (drain_socket S) hs (slot, routed) =
      Some (slot', routed @ concat (map (\<lambda>(h, b). map (keyed (slot_id slot) b) (drained S slot h)) hs)) \<and>
    same_slot S slot slot'"
  using hs
proof (induction hs arbitrary: slot routed)
  case Nil
  then show ?case by simp
next
  case (Cons x hs)
  obtain h b where x: "x = (h, b)" by fastforce
  obtain u where u: "get_mut_udp S (sockets slot) h = Some u" using Cons.prems(2) x by fastforce
  obtain slot1 where one: "drain_socket S (h, b) (slot, routed) =
      Some (slot1, routed @ map (keyed (slot_id slot) b) (drained S slot h))" "same_slot S slot slot1"
    "\<And>h'. h' \<noteq> h \<Longrightarrow> drained S slot1 h' = drained S slot h'"
    "\<And>h'. h' \<noteq> h \<Longrightarrow> get_mut_udp S (sockets slot1) h' = get_mut_udp S (sockets slot) h'"
    using drain_socket_eq [OF S progress u] by blast
  have other: "h' \<noteq> h" if "(h', b') \<in> set hs" for h' b' using Cons.prems(1) that x by force
  have "get_mut_udp S (sockets slot1) h' \<noteq> None" if "(h', b') \<in> set hs" for h' b'
    using Cons.prems(2) [of h' b'] one(4) [OF other [OF that]] that by simp
  then obtain slot' where "for_each (drain_socket S) hs (slot1, routed @ map (keyed (slot_id slot) b) (drained S slot h)) =
      Some (slot', (routed @ map (keyed (slot_id slot) b) (drained S slot h)) @
        concat (map (\<lambda>(h, b). map (keyed (slot_id slot1) b) (drained S slot1 h)) hs))" "same_slot S slot1 slot'"
    using Cons.IH [of slot1] Cons.prems(1) x by fastforce
  moreover have "map (\<lambda>(h, b). map (keyed (slot_id slot1) b) (drained S slot1 h)) hs =
      map (\<lambda>(h, b). map (keyed (slot_id slot) b) (drained S slot h)) hs"
    using one(3) other same_slot_id [OF one(2)] by (auto intro!: map_cong)
  ultimately show ?case using one x same_slot_trans by auto
qed

section \<open>Draining every slot\<close>

definition slot_routed ::
    "('i, 's, 't, 'u, 'x) smoltcp_scheme \<Rightarrow> iter_order \<Rightarrow> session_manager \<Rightarrow> ('i, 's, 't) interface_slot \<Rightarrow>
     (session_key \<times> bytes) list" where
  "slot_routed S ord m slot =
     concat (map (\<lambda>(h, b). map (keyed (slot_id slot) b) (drained S slot h)) (slot_dst_sockets ord m (slot_id slot)))"

lemma drain_slots_loop:
  assumes S: "socket_set_laws S" and progress: "udp_recv_progress S queued"
    and "\<And>i. distinct (map fst (slot_dst_sockets ord m i))"
    and "\<And>s h b. s \<in> set sl \<Longrightarrow> (h, b) \<in> set (slot_dst_sockets ord m (slot_id s)) \<Longrightarrow>
      get_mut_udp S (sockets s) h \<noteq> None"
  shows "\<exists>sl'. drain_slots S ord m sl = Some (sl', concat (map (slot_routed S ord m) sl)) \<and>
    list_all2 (same_slot S) sl sl'"
  using assms(4)
proof (induction sl)
  case Nil
  then show ?case by simp
next
  case (Cons s sl)
  obtain s' where "for_each (drain_socket S) (slot_dst_sockets ord m (slot_id s)) (s, []) =
      Some (s', [] @ slot_routed S ord m s)" "same_slot S s s'"
    using drain_sockets_loop [OF S progress assms(3), of "slot_id s" s "[]"] Cons.prems
    unfolding slot_routed_def by fastforce
  moreover obtain sl' where "drain_slots S ord m sl = Some (sl', concat (map (slot_routed S ord m) sl))"
    "list_all2 (same_slot S) sl sl'" using Cons by fastforce
  ultimately show ?case by auto
qed

lemma same_shape_list_all2:
  assumes "list_all2 (same_slot S) (slots c) sl"
  shows "same_shape S c (c\<lparr>slots := sl\<rparr>)" and "map slot_io sl = map slot_io (slots c)"
proof -
  have io: "map slot_io sl = map slot_io xs \<and> map slot_meta sl = map slot_meta xs" and
    kinds: "rel_option (same_slot S) (find (\<lambda>x. slot_id x = i) xs) (find (\<lambda>x. slot_id x = i) sl)"
    if "list_all2 (same_slot S) xs sl" for xs i
    using that by (induction rule: list_all2_induct) (auto simp: same_slot_def slot_io_def)
  show "map slot_io sl = map slot_io (slots c)" using io [OF assms] by blast
  have "kind_at S (c\<lparr>slots := sl\<rparr>) i h = kind_at S c i h" for i h
    using kinds [OF assms, of i]
    by (auto simp: kind_at_def sock_at_def core_slot_def same_slot_def rel_option_iff split: option.splits)
  then show "same_shape S c (c\<lparr>slots := sl\<rparr>)" using io [OF assms] by (simp add: same_shape_def)
qed

text \<open>The sockets that are drained for a slot: those of its destinations, each once.\<close>

lemma in_slot_dst_sockets:
  assumes "hm_wf (udp_dst_sockets m)"
  shows "(h, d) \<in> set (slot_dst_sockets ord m i) \<longleftrightarrow> (\<exists>n. hm_get (udp_dst_sockets m) (i, d) = Some (h, n))"
proof -
  have "(h, d) \<in> set (slot_dst_sockets ord m i) \<longleftrightarrow> (\<exists>n. ((i, d), h, n) \<in> set (udp_dst_sockets m))"
    by (force simp: slot_dst_sockets_def)
  then show ?thesis using hm_get_in [OF assms] by simp
qed

lemma distinct_slot_dst_sockets:
  assumes wf: "udp_wf S c qs"
  shows "distinct (map fst (slot_dst_sockets ord (manager c) i))"
proof -
  let ?dst = "udp_dst_sockets (manager c)"
  let ?es = "filter (\<lambda>((ifc, _), _). ifc = i) (hm_iter (ord_dst ord) ?dst)"
  note get = map_of_is_SomeI [OF udp_wfD(2) [OF wf]]
  have "map fst (slot_dst_sockets ord (manager c) i) = map (\<lambda>((_, ep), (h, _)). h) ?es"
    by (simp add: slot_dst_sockets_def split_beta)
  moreover have "distinct ?es"
    using udp_wfD(2) [OF wf] distinct_hm_iter [of "ord_dst ord" ?dst] by (metis distinct_filter distinct_map)
  moreover have "inj_on (\<lambda>((_, ep), (h, _)). h) (set ?es)"
  proof (rule inj_onI, clarsimp)
    fix d h n d' n'
    assume "((i, d), h, n) \<in> set ?dst" "((i, d'), h, n') \<in> set ?dst"
    from get [OF this(1)] get [OF this(2)] show "d = d' \<and> n = n'"
      using udp_wfD(12) [OF wf, of i d h n d' n'] by auto
  qed
  ultimately show ?thesis by (simp add: distinct_map)
qed

lemma drain_slots_result:
  assumes S: "socket_set_laws S" and progress: "udp_recv_progress S queued" and good: "good S debt ss c qs"
  shows "\<exists>sl. drain_slots S ord (manager c) (slots c) =
      Some (sl, concat (map (slot_routed S ord (manager c)) (slots c))) \<and>
    good S debt ss (c\<lparr>slots := sl\<rparr>) qs \<and> map slot_io sl = map slot_io (slots c)"
proof -
  note wf = goodD(4) [OF good]
  have live: "get_mut_udp S (sockets s) h \<noteq> None"
    if s: "s \<in> set (slots c)" and hb: "(h, b) \<in> set (slot_dst_sockets ord (manager c) (slot_id s))" for s h b
  proof -
    obtain n where "hm_get (udp_dst_sockets (manager c)) (slot_id s, b) = Some (h, n)"
      using hb in_slot_dst_sockets [OF udp_wfD(2) [OF wf]] by blast
    then have "kind_at S c (slot_id s) h = Some UdpKind" by (rule udp_wfD(9) [OF wf])
    moreover have "core_slot c (slot_id s) = Some s"
      using goodD(2) [OF good] s by (intro core_slot_in) (simp_all add: slots_wf_def)
    ultimately show ?thesis by (auto simp: kind_at_UdpKind)
  qed
  obtain sl where sl: "drain_slots S ord (manager c) (slots c) =
      Some (sl, concat (map (slot_routed S ord (manager c)) (slots c)))"
    "list_all2 (same_slot S) (slots c) sl"
    using drain_slots_loop [where ord = ord and sl = "slots c", OF S progress
        distinct_slot_dst_sockets [OF wf]] live by meson
  then show ?thesis
    using good_same_shape [OF same_shape_list_all2(1) [OF sl(2)] good] same_shape_list_all2(2) [OF sl(2)]
    by simp
qed

section \<open>Routing\<close>

definition set_udp :: "(session_key, udp_entry) hash_map \<Rightarrow> ('i, 's, 't) core \<Rightarrow> ('i, 's, 't) core" where
  "set_udp udp c = c\<lparr>manager := (manager c)\<lparr>mgr_udp := udp\<rparr>\<rparr>"

lemma set_udp_simps [simp]:
  "slots (set_udp udp c) = slots c"
  "config (set_udp udp c) = config c"
  "buffer_bytes (set_udp udp c) = buffer_bytes c"
  "mgr_tcp (manager (set_udp udp c)) = mgr_tcp (manager c)"
  "mgr_udp (manager (set_udp udp c)) = udp"
  "udp_dst_sockets (manager (set_udp udp c)) = udp_dst_sockets (manager c)"
  "set_udp udp' (set_udp udp c) = set_udp udp' c"
  "set_udp (mgr_udp (manager c)) c = c"
  "kind_at S (set_udp udp c) i h = kind_at S c i h"
  by (simp_all add: set_udp_def)

lemma udp_wf_touch:
  assumes wf: "udp_wf S c qs" and get: "hm_get (mgr_udp (manager c)) k = Some e"
  shows "udp_wf S (set_udp (hm_insert k (e\<lparr>ue_last_activity := now\<rparr>) (mgr_udp (manager c))) c) qs"
proof (rule udp_wfI, unfold set_udp_simps)
  note wf = udp_wfD [OF wf]
  let ?udp = "hm_insert k (e\<lparr>ue_last_activity := now\<rparr>) (mgr_udp (manager c))"
  have old: "\<exists>e0. hm_get (mgr_udp (manager c)) k' = Some e0 \<and> ue_queue e0 = ue_queue e' \<and> ue_socket e0 = ue_socket e'"
    if "hm_get ?udp k' = Some e'" for k' e' using that get by (auto split: if_splits)
  show "hm_wf ?udp" "hm_wf (udp_dst_sockets (manager c))" using wf(1,2) by simp_all
  show "length ?udp \<le> unat (cfg_udp_max_sessions (config c))" using wf(3) get by (simp add: hm_len_insert)
  fix k' e' assume "hm_get ?udp k' = Some e'"
  then obtain e0 where e0: "hm_get (mgr_udp (manager c)) k' = Some e0" "ue_queue e0 = ue_queue e'"
    "ue_socket e0 = ue_socket e'" using old by blast
  show "sk_proto k' = ProtoUdp" by (rule wf(4) [OF e0(1)])
  show "ue_queue e' < length qs \<and> \<not> is_closed (qs ! ue_queue e')" using wf(5,6) [OF e0(1)] e0 by simp
  show "map_option fst (hm_get (udp_dst_sockets (manager c)) (sk_interface k', sk_dst k')) = Some (ue_socket e')"
    using wf(7) [OF e0(1)] e0 by simp
  fix k2 e2 assume "hm_get ?udp k2 = Some e2" "ue_queue e' = ue_queue e2"
  then show "k' = k2" using old [of k2 e2] wf(8) [OF e0(1)] e0(2) by metis
next
  note wf = udp_wfD [OF wf]
  fix i d h n assume dst: "hm_get (udp_dst_sockets (manager c)) (i, d) = Some (h, n)"
  show "kind_at S c i h = Some UdpKind" by (rule wf(9) [OF dst])
  show "0 < unat n \<and> unat n = length (sessions_on
      (hm_insert k (e\<lparr>ue_last_activity := now\<rparr>) (mgr_udp (manager c))) (i, d))"
    using wf(10,11) [OF dst] get by (simp add: length_sessions_on_update)
  show "d = d'" if "hm_get (udp_dst_sockets (manager c)) (i, d') = Some (h, n')" for d' n'
    by (rule wf(12) [OF dst that])
qed

lemma good_udp_touch:
  assumes good: "good S debt ss c qs" and get: "hm_get (mgr_udp (manager c)) k = Some e"
  shows "good S debt ss (set_udp (hm_insert k (e\<lparr>ue_last_activity := now\<rparr>) (mgr_udp (manager c))) c) qs"
proof (rule goodI)
  let ?c = "set_udp (hm_insert k (e\<lparr>ue_last_activity := now\<rparr>) (mgr_udp (manager c))) c"
  show "udp_wf S ?c qs" by (rule udp_wf_touch [OF goodD(4) [OF good] get])
  show "tcp_wf S ?c" by (rule tcp_wf_cong [OF goodD(3) [OF good]]) simp_all
  show "tcp_owned ss (manager ?c)" using goodD(7) [OF good] by (simp add: tcp_owned_def)
  show "udp_owned ss (manager ?c) qs"
    using goodD(8) [OF good] get by (fastforce simp: udp_owned_def)
qed (use goodD(1,2,5,6) [OF good] in \<open>simp_all add: accounted_def within_cap_def slots_wf_def\<close>)

text \<open>
  Routing a list of datagrams: the queue of a session receives, in order, the payloads keyed for it;
  the activity time of the sessions that received something is \<open>now\<close>; nothing else changes.
\<close>

definition touched :: "instant \<Rightarrow> bool \<Rightarrow> udp_entry \<Rightarrow> udp_entry" where
  "touched now hit e = (if hit then e\<lparr>ue_last_activity := now\<rparr> else e)"

lemma touched_simps [simp]:
  "ue_socket (touched now hit e) = ue_socket e"
  "ue_queue (touched now hit e) = ue_queue e"
  "touched now a (touched now b e) = touched now (a \<or> b) e"
  "touched now False e = e"
  by (simp_all add: touched_def)

definition payloads_for :: "session_key \<Rightarrow> (session_key \<times> bytes) list \<Rightarrow> bytes list" where
  "payloads_for k routed = map snd (filter (\<lambda>p. fst p = k) routed)"

lemma same_queues_trans: "same_queues a b \<Longrightarrow> same_queues b c \<Longrightarrow> same_queues a c"
  by (simp add: same_queues_def)

lemma route_datagram_absent:
  "hm_get (mgr_udp (manager c)) k = None \<Longrightarrow> route_datagram now (k, data) (c, qs) = (c, qs)"
  by (simp add: route_datagram_def)

lemma route_datagram_present:
  "hm_get (mgr_udp (manager c)) k = Some e \<Longrightarrow> route_datagram now (k, data) (c, qs) =
    (set_udp (hm_insert k (e\<lparr>ue_last_activity := now\<rparr>) (mgr_udp (manager c))) c,
     qs[ue_queue e := udp_queue_push data (qs ! ue_queue e)])"
  by (simp add: route_datagram_def set_udp_def)

text \<open>
  The entries and the queues after a list of datagrams was routed: the sessions that got one are refreshed, each
  queue has its own datagrams appended, and no other queue has changed.
\<close>

definition after_routing ::
    "instant \<Rightarrow> (session_key \<times> bytes) list \<Rightarrow> (session_key, udp_entry) hash_map \<Rightarrow> udp_queue list \<Rightarrow>
     (session_key, udp_entry) hash_map \<Rightarrow> udp_queue list \<Rightarrow> bool" where
  "after_routing now routed udp qs udp' qs' \<longleftrightarrow>
     same_queues qs qs' \<and>
     (\<forall>k. hm_get udp' k = map_option (touched now (k \<in> fst ` set routed)) (hm_get udp k)) \<and>
     (\<forall>k e. hm_get udp k = Some e \<longrightarrow>
        q_inner (qs' ! ue_queue e) = q_inner (qs ! ue_queue e) @ payloads_for k routed) \<and>
     (\<forall>i. (\<forall>k e. hm_get udp k = Some e \<longrightarrow> ue_queue e \<noteq> i) \<longrightarrow> qs' ! i = qs ! i)"

lemma after_routingD:
  assumes "after_routing now routed udp qs udp' qs'"
  shows "same_queues qs qs'"
    and "hm_get udp' k = map_option (touched now (k \<in> fst ` set routed)) (hm_get udp k)"
    and "hm_get udp k = Some e \<Longrightarrow> q_inner (qs' ! ue_queue e) = q_inner (qs ! ue_queue e) @ payloads_for k routed"
    and "\<forall>k e. hm_get udp k = Some e \<longrightarrow> ue_queue e \<noteq> i \<Longrightarrow> qs' ! i = qs ! i"
  using assms by (auto simp: after_routing_def)

lemma routed_snoc:
  "payloads_for k (routed @ [(k', data)]) = payloads_for k routed @ (if k = k' then [data] else [])"
  "k \<in> fst ` set (routed @ [(k', data)]) \<longleftrightarrow> k = k' \<or> k \<in> fst ` set routed"
  by (auto simp: payloads_for_def)

lemma after_routing_absent:
  assumes routed: "after_routing now routed udp qs udp' qs'" and "hm_get udp k = None"
  shows "after_routing now (routed @ [(k, data)]) udp qs udp' qs'"
proof -
  have "hm_get udp' k' = map_option (touched now (k' = k \<or> k' \<in> fst ` set routed)) (hm_get udp k')" for k'
    using after_routingD(2) [OF routed, of k'] assms(2) by (cases "k' = k") simp_all
  moreover have "k' \<noteq> k" if "hm_get udp k' = Some e" for k' e using that assms(2) by auto
  ultimately show ?thesis using routed unfolding after_routing_def routed_snoc by auto
qed

lemma after_routing_present:
  assumes routed: "after_routing now routed udp qs udp' qs'" and get: "hm_get udp k = Some e"
    and own: "\<And>k' e'. hm_get udp k' = Some e' \<Longrightarrow> ue_queue e' = ue_queue e \<Longrightarrow> k' = k"
    and len: "ue_queue e < length qs'"
  shows "after_routing now (routed @ [(k, data)]) udp qs
    (hm_insert k ((touched now (k \<in> fst ` set routed) e)\<lparr>ue_last_activity := now\<rparr>) udp')
    (qs'[ue_queue e := udp_queue_push data (qs' ! ue_queue e)])"
  unfolding after_routing_def routed_snoc
proof (intro conjI allI impI)
  let ?qs = "qs'[ue_queue e := udp_queue_push data (qs' ! ue_queue e)]"
  show "same_queues qs ?qs"
    by (rule same_queues_trans [OF after_routingD(1) [OF routed] same_queues_update]) simp
  show "hm_get (hm_insert k ((touched now (k \<in> fst ` set routed) e)\<lparr>ue_last_activity := now\<rparr>) udp') k' =
      map_option (touched now (k' = k \<or> k' \<in> fst ` set routed)) (hm_get udp k')" for k'
    using after_routingD(2) [OF routed, of k'] get by (simp add: touched_def)
  show "q_inner (?qs ! ue_queue e') =
      q_inner (qs ! ue_queue e') @ payloads_for k' routed @ (if k' = k then [data] else [])"
    if k': "hm_get udp k' = Some e'" for k' e'
  proof (cases "k' = k")
    case True
    then show ?thesis using k' get len after_routingD(3) [OF routed k'] by (simp add: udp_queue_push_def)
  next
    case False
    then have "ue_queue e' \<noteq> ue_queue e" using own [OF k'] by auto
    then show ?thesis using False after_routingD(3) [OF routed k'] by simp
  qed
  show "?qs ! i = qs ! i" if "\<forall>k e. hm_get udp k = Some e \<longrightarrow> ue_queue e \<noteq> i" for i
    using after_routingD(4) [OF routed that] that get by auto
qed

lemma route_datagrams:
  assumes "good S debt ss c qs"
  shows "\<exists>udp qs'. fold (route_datagram now) routed (c, qs) = (set_udp udp c, qs') \<and>
    good S debt ss (set_udp udp c) qs' \<and> after_routing now routed (mgr_udp (manager c)) qs udp qs'"
proof (induction routed rule: rev_induct)
  case Nil
  have "touched now False = (\<lambda>e. e)" by (simp add: fun_eq_iff)
  then show ?case using assms
    by (intro exI [of _ "mgr_udp (manager c)"] exI [of _ qs]) (simp add: after_routing_def payloads_for_def option.map_ident)
next
  case (snoc p routed)
  let ?udp = "mgr_udp (manager c)"
  obtain k data where p: "p = (k, data)" by fastforce
  obtain udp qs1 where IH: "fold (route_datagram now) routed (c, qs) = (set_udp udp c, qs1)"
    "good S debt ss (set_udp udp c) qs1" "after_routing now routed ?udp qs udp qs1" using snoc by blast
  note get_udp = after_routingD(2) [OF IH(3), of k]
  show ?case
  proof (cases "hm_get ?udp k")
    case None
    then have "fold (route_datagram now) (routed @ [p]) (c, qs) = (set_udp udp c, qs1)"
      using IH(1) get_udp by (simp add: p route_datagram_absent)
    then show ?thesis using IH(2) after_routing_absent [OF IH(3) None] unfolding p by blast
  next
    case (Some e)
    let ?e = "touched now (k \<in> fst ` set routed) e"
    let ?udp' = "hm_insert k (?e\<lparr>ue_last_activity := now\<rparr>) udp"
    let ?qs = "qs1[ue_queue e := udp_queue_push data (qs1 ! ue_queue e)]"
    have get: "hm_get (mgr_udp (manager (set_udp udp c))) k = Some ?e" using get_udp Some by simp
    have "fold (route_datagram now) (routed @ [p]) (c, qs) = (set_udp ?udp' c, ?qs)"
      using IH(1) route_datagram_present [OF get, of now data qs1] by (simp add: p)
    moreover have "good S debt ss (set_udp ?udp' c) ?qs"
      using good_same_queues [OF same_queues_update good_udp_touch [OF IH(2) get, of now]] by simp
    moreover have "after_routing now (routed @ [p]) ?udp qs ?udp' ?qs"
      unfolding p
    proof (rule after_routing_present [OF IH(3) Some])
      show "k' = k" if "hm_get ?udp k' = Some e'" "ue_queue e' = ue_queue e" for k' e'
        using udp_wfD(8) [OF goodD(4) [OF assms] that(1) Some that(2)] .
      show "ue_queue e < length qs1" using udp_wfD(5) [OF goodD(4) [OF IH(2)] get] by simp
    qed
    ultimately show ?thesis by blast
  qed
qed

text \<open>
  Which datagrams are keyed for a session: those its destination's socket held from its source.
\<close>

lemma payloads_for_append: "payloads_for k (xs @ ys) = payloads_for k xs @ payloads_for k ys"
  by (simp add: payloads_for_def)

lemma payloads_for_concat: "payloads_for k (concat xss) = concat (map (payloads_for k) xss)"
  by (induction xss) (simp_all add: payloads_for_append, simp add: payloads_for_def)

lemma payloads_for_keyed:
  "payloads_for k (map (keyed i b) got) =
    (if sk_interface k = i \<and> sk_dst k = b \<and> sk_proto k = ProtoUdp
     then map fst (filter (\<lambda>(payload, src). src = sk_src k) got) else [])"
proof -
  have eq: "session_key_new i ProtoUdp src b = k \<longleftrightarrow>
      sk_interface k = i \<and> sk_dst k = b \<and> sk_proto k = ProtoUdp \<and> src = sk_src k" for src
    unfolding session_key_new_def by (auto intro!: session_key.equality)
  show ?thesis
    unfolding payloads_for_def keyed_def filter_map comp_def split_def fst_conv eq
    by (cases "sk_interface k = i \<and> sk_dst k = b \<and> sk_proto k = ProtoUdp") (auto simp: comp_def filter_empty_conv)
qed

lemma concat_single:
  assumes "distinct xs" and "x \<in> set xs" and "\<And>y. y \<in> set xs \<Longrightarrow> y \<noteq> x \<Longrightarrow> f y = []"
  shows "concat (map f xs) = f x"
  using assms
proof (induction xs)
  case (Cons y xs)
  show ?case
  proof (cases "y = x")
    case True
    then have "f z = []" if "z \<in> set xs" for z using Cons.prems that by auto
    then have "concat (map f xs) = []" by simp
    then show ?thesis using True by simp
  qed (use Cons in auto)
qed simp

lemma payloads_for_slot:
  assumes wf: "udp_wf S c qs" and dst: "hm_get (udp_dst_sockets (manager c)) (sk_interface k, sk_dst k) = Some (h, n)"
    and udp: "sk_proto k = ProtoUdp"
  shows "payloads_for k (slot_routed S ord (manager c) slot) =
    (if slot_id slot = sk_interface k
     then map fst (filter (\<lambda>(payload, src). src = sk_src k) (drained S slot h)) else [])"
proof (cases "slot_id slot = sk_interface k")
  case True
  let ?hs = "slot_dst_sockets ord (manager c) (slot_id slot)"
  let ?f = "\<lambda>(h, b). payloads_for k (map (keyed (slot_id slot) b) (drained S slot h))"
  note mem = in_slot_dst_sockets [OF udp_wfD(2) [OF wf]]
  have "distinct ?hs" using distinct_slot_dst_sockets [OF wf] by (simp add: distinct_map)
  moreover have "(h, sk_dst k) \<in> set ?hs" using dst True by (auto simp: mem)
  moreover have "?f y = []" if "y \<in> set ?hs" "y \<noteq> (h, sk_dst k)" for y
  proof -
    obtain h' b where y: "y = (h', b)" by fastforce
    then show ?thesis using that dst True by (auto simp: mem payloads_for_keyed)
  qed
  ultimately have "concat (map ?f ?hs) = ?f (h, sk_dst k)" by (rule concat_single)
  then show ?thesis using True udp
    by (simp add: slot_routed_def payloads_for_concat comp_def split_def payloads_for_keyed)
next
  case False
  then show ?thesis
    by (auto simp: slot_routed_def payloads_for_concat payloads_for_keyed split_def)
qed

lemma payloads_for_slots:
  assumes good: "good S debt ss c qs" and dst: "hm_get (udp_dst_sockets (manager c)) (sk_interface k, sk_dst k) = Some (h, n)"
    and udp: "sk_proto k = ProtoUdp" and slot: "core_slot c (sk_interface k) = Some slot"
  shows "payloads_for k (concat (map (slot_routed S ord (manager c)) (slots c))) =
    map fst (filter (\<lambda>(payload, src). src = sk_src k) (drained S slot h))"
proof -
  let ?f = "\<lambda>s. payloads_for k (slot_routed S ord (manager c) s)"
  have dist: "distinct (map slot_id (slots c))" using goodD(2) [OF good] by (simp add: slots_wf_def)
  have eq: "?f s = (if slot_id s = sk_interface k
      then map fst (filter (\<lambda>(payload, src). src = sk_src k) (drained S s h)) else [])" for s
    by (rule payloads_for_slot [OF goodD(4) [OF good] dst udp])
  have "concat (map ?f (slots c)) = ?f slot"
  proof (rule concat_single)
    show "distinct (slots c)" using dist by (simp add: distinct_map)
    show "slot \<in> set (slots c)" using slot by (rule core_slot_Some)
    show "?f s = []" if "s \<in> set (slots c)" "s \<noteq> slot" for s
      using core_slot_in [OF dist that(1)] slot that(2) by (auto simp: eq)
  qed
  then show ?thesis
    using core_slot_Some(2) [OF slot] by (simp add: payloads_for_concat comp_def eq)
qed

section \<open>The timeout sweep\<close>

lemma udp_reap_one_good:
  assumes S: "socket_set_laws S" and good: "good S (unat rel) ss c qs"
  shows "\<exists>c' qs' rel'. udp_reap_one S k (c, qs, rel) = Some (c', qs', rel') \<and> good S (unat rel') ss c' qs' \<and>
    mgr_udp (manager c') = hm_remove k (mgr_udp (manager c)) \<and> mgr_tcp (manager c') = mgr_tcp (manager c) \<and>
    config c' = config c \<and> closing qs qs' \<and>
    (\<forall>e. hm_get (mgr_udp (manager c)) k = Some e \<longrightarrow> is_closed (qs' ! ue_queue e))"
proof -
  obtain removed c' qs' where un: "udp_unregister S (sk_interface k) k (c, qs) = Some (removed, c', qs')"
    and good': "good S (unat rel + unat (freed (config c) removed)) ss c' qs'"
    and c': "config c' = config c" "mgr_udp (manager c') = hm_remove k (mgr_udp (manager c))" "closing qs qs'"
      "\<forall>e. hm_get (mgr_udp (manager c)) k = Some e \<longrightarrow> is_closed (qs' ! ue_queue e)"
      "mgr_tcp (manager c') = mgr_tcp (manager c)"
    using udp_unregister_good [OF S good] by blast
  have "unat rel + unat (freed (config c) removed) < 2 ^ 64" using debt_bound [OF good'] by simp
  then have "unat (rel + freed (config c) removed) = unat rel + unat (freed (config c) removed)"
    by (rule unat_usize_add)
  moreover have "udp_reap_one S k (c, qs, rel) = Some (c', qs', rel + freed (config c) removed)"
    by (cases removed) (simp_all add: udp_reap_one_def un c' freed_def)
  ultimately show ?thesis using good' c' by simp
qed

lemma udp_reap_good:
  assumes S: "socket_set_laws S" and "good S (unat rel) ss c qs"
  shows "\<exists>c' qs' rel'. for_each (udp_reap_one S) ks (c, qs, rel) = Some (c', qs', rel') \<and>
    good S (unat rel') ss c' qs' \<and> config c' = config c \<and> closing qs qs' \<and>
    mgr_tcp (manager c') = mgr_tcp (manager c) \<and>
    (\<forall>k. hm_get (mgr_udp (manager c')) k = (if k \<in> set ks then None else hm_get (mgr_udp (manager c)) k)) \<and>
    (\<forall>k e. k \<in> set ks \<longrightarrow> hm_get (mgr_udp (manager c)) k = Some e \<longrightarrow> is_closed (qs' ! ue_queue e))"
  using assms(2)
proof (induction ks arbitrary: c qs rel)
  case Nil
  then show ?case by simp
next
  case (Cons k ks)
  obtain c1 qs1 rel1 where one: "udp_reap_one S k (c, qs, rel) = Some (c1, qs1, rel1)"
    "good S (unat rel1) ss c1 qs1" "mgr_udp (manager c1) = hm_remove k (mgr_udp (manager c))"
    "config c1 = config c" "closing qs qs1" "mgr_tcp (manager c1) = mgr_tcp (manager c)"
    "\<forall>e. hm_get (mgr_udp (manager c)) k = Some e \<longrightarrow> is_closed (qs1 ! ue_queue e)"
    using udp_reap_one_good [OF S Cons.prems] by blast
  from Cons.IH [OF one(2)] obtain c' qs' rel' where
    rest: "for_each (udp_reap_one S) ks (c1, qs1, rel1) = Some (c', qs', rel')" "good S (unat rel') ss c' qs'"
    "config c' = config c1" "closing qs1 qs'" "mgr_tcp (manager c') = mgr_tcp (manager c1)"
    "\<forall>k. hm_get (mgr_udp (manager c')) k = (if k \<in> set ks then None else hm_get (mgr_udp (manager c1)) k)"
    "\<forall>k e. k \<in> set ks \<longrightarrow> hm_get (mgr_udp (manager c1)) k = Some e \<longrightarrow> is_closed (qs' ! ue_queue e)"
    by blast
  have "is_closed (qs' ! ue_queue e)" if e: "k' \<in> set (k # ks)" "hm_get (mgr_udp (manager c)) k' = Some e" for k' e
  proof (cases "k' = k")
    case True
    have "ue_queue e < length qs1"
      using udp_wfD(5) [OF goodD(4) [OF Cons.prems] e(2)] closing_length [OF one(5)] by simp
    then show ?thesis using one(7) rest(4) True e(2) by (auto simp: closing_def)
  next
    case False
    then show ?thesis using rest(7) e by (auto simp: one(3))
  qed
  then show ?case using one rest closing_trans [OF one(5) rest(4)] by auto
qed

text \<open>The expired sessions are those whose age exceeds the timeout, whatever the iteration order.\<close>

lemma in_udp_expired:
  assumes "hm_wf (mgr_udp (manager c))"
  shows "k \<in> set (udp_expired S ord now c) \<longleftrightarrow>
    (\<exists>e. hm_get (mgr_udp (manager c)) k = Some e \<and>
       duration_from_std S (cfg_udp_session_timeout (config c)) < instant_sub S now (ue_last_activity e))"
proof -
  have "k \<in> set (udp_expired S ord now c) \<longleftrightarrow> (\<exists>e. (k, e) \<in> set (mgr_udp (manager c)) \<and>
       duration_from_std S (cfg_udp_session_timeout (config c)) < instant_sub S now (ue_last_activity e))"
    by (force simp: udp_expired_def Let_def)
  then show ?thesis using hm_get_in [OF assms] by simp
qed

end
