(* ===== verification/Runner_Cycle.thy ===== *)
theory Runner_Cycle
  imports Runner_Udp
begin

text \<open>
  The whole post-pass and the whole poll cycle: they do not panic and keep the invariant, and the
  post-pass meets a specification that looks at each TCP entry and each UDP session on its own.
\<close>

section \<open>The post-pass\<close>

text \<open>The datagrams waiting for a session in the socket of its destination.\<close>

definition datagrams_at ::
    "('i, 's, 't, 'u, 'x) smoltcp_scheme \<Rightarrow> ('i, 's, 't) core \<Rightarrow> session_key \<Rightarrow> bytes list" where
  "datagrams_at S c k =
     (case hm_get (udp_dst_sockets (manager c)) (sk_interface k, sk_dst k) of
        None \<Rightarrow> []
      | Some (h, n) \<Rightarrow>
          (case sock_at S c (sk_interface k) h of
             Some (UdpSocket u) \<Rightarrow>
               (case udp_drain S u of
                  Some (got, _) \<Rightarrow> map fst (filter (\<lambda>(payload, src). src = sk_src k) got)
                | None \<Rightarrow> [])
           | _ \<Rightarrow> []))"

definition expired ::
    "('i, 's, 't, 'u, 'x) smoltcp_scheme \<Rightarrow> netstack_config \<Rightarrow> instant \<Rightarrow> udp_entry \<Rightarrow> bool" where
  "expired S cfg now e \<longleftrightarrow>
     duration_from_std S (cfg_udp_session_timeout cfg) < instant_sub S now (ue_last_activity e)"

definition next_tcp ::
    "('i, 's, 't, 'u, 'x) smoltcp_scheme \<Rightarrow> ('i, 's, 't) core \<Rightarrow> session_key \<Rightarrow> tcp_entry option" where
  "next_tcp S c k =
     (case hm_get (mgr_tcp (manager c)) k of
        None \<Rightarrow> None
      | Some e \<Rightarrow>
          if te_orphaned e \<and> fsm_at S c k e = Some FsmClosed then None else Some (next_entry_at S c k e))"

definition next_udp ::
    "('i, 's, 't, 'u, 'x) smoltcp_scheme \<Rightarrow> instant \<Rightarrow> ('i, 's, 't) core \<Rightarrow> session_key \<Rightarrow> udp_entry option" where
  "next_udp S now c k =
     (case hm_get (mgr_udp (manager c)) k of
        None \<Rightarrow> None
      | Some e \<Rightarrow>
          (let e' = touched now (datagrams_at S c k \<noteq> []) e
           in if expired S (config c) now e' then None else Some e'))"

definition new_streams ::
    "('i, 's, 't, 'u, 'x) smoltcp_scheme \<Rightarrow> iter_order \<Rightarrow> ('i, 's, 't) core \<Rightarrow> session list" where
  "new_streams S ord c = concat (map (handed_out_at S c) (hm_iter (ord_tcp ord) (mgr_tcp (manager c))))"

definition post_spec ::
    "('i, 's, 't, 'u, 'x) smoltcp_scheme \<Rightarrow> instant \<Rightarrow> ('i, 's, 't) shared \<Rightarrow> ('i, 's, 't) shared \<Rightarrow> bool" where
  "post_spec S now sh sh' \<longleftrightarrow>
     (\<forall>k. hm_get (mgr_tcp (manager (sh_core sh'))) k = next_tcp S (sh_core sh) k) \<and>
     (\<forall>k. hm_get (mgr_udp (manager (sh_core sh'))) k = next_udp S now (sh_core sh) k) \<and>
     (\<forall>k e. hm_get (mgr_udp (manager (sh_core sh))) k = Some e \<longrightarrow>
        q_inner (sh_queues sh' ! ue_queue e) =
          q_inner (sh_queues sh ! ue_queue e) @ datagrams_at S (sh_core sh) k \<and>
        (next_udp S now (sh_core sh) k = None \<longrightarrow> is_closed (sh_queues sh' ! ue_queue e))) \<and>
     same_io (sh_core sh) (sh_core sh')"

lemma datagrams_at_drained:
  assumes "hm_get (udp_dst_sockets (manager c)) (sk_interface k, sk_dst k) = Some (h, n)"
    and "core_slot c (sk_interface k) = Some slot"
  shows "datagrams_at S c k = map fst (filter (\<lambda>(payload, src). src = sk_src k) (drained S slot h))"
  using assms
  by (auto simp: datagrams_at_def drained_def sock_at_slot get_mut_udp_def split: option.splits socket.splits)

lemma datagrams_at_routed:
  assumes good: "good S debt ss c qs" and get: "hm_get (mgr_udp (manager c)) k = Some e"
  shows "payloads_for k (concat (map (slot_routed S ord (manager c)) (slots c))) = datagrams_at S c k"
proof -
  note wf = udp_wfD [OF goodD(4) [OF good]]
  obtain n where dst: "hm_get (udp_dst_sockets (manager c)) (sk_interface k, sk_dst k) = Some (ue_socket e, n)"
    using wf(7) [OF get] by auto
  obtain slot where slot: "core_slot c (sk_interface k) = Some slot"
    using wf(9) [OF dst] by (auto simp: kind_at_UdpKind)
  show ?thesis
    by (simp add: payloads_for_slots [OF good dst wf(4) [OF get] slot] datagrams_at_drained [OF dst slot])
qed

lemma datagrams_at_same_udp:
  assumes good: "good S debt ss c qs" and same: "same_udp S c c'" and get: "hm_get (mgr_udp (manager c)) k = Some e"
  shows "datagrams_at S c' k = datagrams_at S c k"
proof -
  note wf = udp_wfD [OF goodD(4) [OF good]]
  obtain n where dst: "hm_get (udp_dst_sockets (manager c)) (sk_interface k, sk_dst k) = Some (ue_socket e, n)"
    using wf(7) [OF get] by auto
  obtain u where "sock_at S c (sk_interface k) (ue_socket e) = Some (UdpSocket u)"
    using wf(9) [OF dst] unfolding kind_at_def kind_UdpKind by blast
  then show ?thesis using same dst by (simp add: same_udp_def datagrams_at_def)
qed

lemma payloads_for_hit: "payloads_for k routed \<noteq> [] \<longleftrightarrow> k \<in> fst ` set routed"
  by (force simp: payloads_for_def filter_empty_conv)

lemma in_reapable:
  assumes "hm_wf tcp"
  shows "k \<in> set (concat (map (reapable_at S c) (hm_iter r tcp))) \<longleftrightarrow>
    (\<exists>e. hm_get tcp k = Some e \<and> te_orphaned e \<and> fsm_at S c k e = Some FsmClosed)"
proof -
  have "k \<in> set (concat (map (reapable_at S c) (hm_iter r tcp))) \<longleftrightarrow>
      (\<exists>e. (k, e) \<in> set tcp \<and> te_orphaned e \<and> fsm_at S c k e = Some FsmClosed)"
    by (force simp: reapable_at_def reapable_def split: option.splits)
  then show ?thesis using hm_get_in [OF assms] by simp
qed

lemma udp_unregister_io:
  "udp_unregister S i k (c, qs) = Some (r, c', qs') \<Longrightarrow> same_io c c'"
  by (auto simp: udp_unregister_def same_io_def put_slot_def core_slot_def map_slot_io_put_first
      Let_def bind_eq_Some_conv split: option.splits prod.splits if_splits)

lemma udp_reaps_io:
  assumes "for_each (udp_reap_one S) ks (c, qs, rel) = Some (c', qs', rel')"
  shows "same_io c c'"
proof -
  have "(\<lambda>(c', qs, rel). same_io c c') (c', qs', rel')"
    by (rule for_each_result [OF assms])
      (auto simp: udp_reap_one_def bind_eq_Some_conv dest!: udp_unregister_io intro: same_io_trans)
  then show ?thesis by simp
qed

text \<open>The UDP half of the post-pass, from the state the TCP half leaves.\<close>

lemma udp_post_good:
  assumes S: "socket_set_laws S" and progress: "udp_recv_progress S queued" and good: "good S (unat rel) ss c qs"
  obtains sl c1 qs1 c' qs' rel' where
    "drain_slots S ord (manager c) (slots c) = Some (sl, concat (map (slot_routed S ord (manager c)) (slots c)))"
    "fold (route_datagram now) (concat (map (slot_routed S ord (manager c)) (slots c))) (c\<lparr>slots := sl\<rparr>, qs) = (c1, qs1)"
    "for_each (udp_reap_one S) (udp_expired S ord now c1) (c1, qs1, rel) = Some (c', qs', rel')"
    "good S (unat rel') ss c' qs'" "same_io c c'" "mgr_tcp (manager c') = mgr_tcp (manager c)"
    "\<forall>k. hm_get (mgr_udp (manager c')) k = next_udp S now c k"
    "\<forall>k e. hm_get (mgr_udp (manager c)) k = Some e \<longrightarrow>
       q_inner (qs' ! ue_queue e) = q_inner (qs ! ue_queue e) @ datagrams_at S c k \<and>
       (next_udp S now c k = None \<longrightarrow> is_closed (qs' ! ue_queue e))"
proof -
  let ?routed = "concat (map (slot_routed S ord (manager c)) (slots c))" and ?udp = "mgr_udp (manager c)"
  obtain sl where sl: "drain_slots S ord (manager c) (slots c) = Some (sl, ?routed)"
    "good S (unat rel) ss (c\<lparr>slots := sl\<rparr>) qs" "map slot_io sl = map slot_io (slots c)"
    using drain_slots_result [OF S progress good] by blast
  obtain udp qs1 where r: "fold (route_datagram now) ?routed (c\<lparr>slots := sl\<rparr>, qs) = (set_udp udp (c\<lparr>slots := sl\<rparr>), qs1)"
    "good S (unat rel) ss (set_udp udp (c\<lparr>slots := sl\<rparr>)) qs1" "after_routing now ?routed ?udp qs udp qs1"
    using route_datagrams [OF sl(2), of now ?routed] by auto
  note upd = after_routingD(2) [OF r(3)] and inner = after_routingD(3) [OF r(3)]
  let ?c1 = "set_udp udp (c\<lparr>slots := sl\<rparr>)"
  obtain c' qs' rel' where reap: "for_each (udp_reap_one S) (udp_expired S ord now ?c1) (?c1, qs1, rel) = Some (c', qs', rel')"
    "good S (unat rel') ss c' qs'" "closing qs1 qs'" "mgr_tcp (manager c') = mgr_tcp (manager ?c1)"
    and left: "\<And>k. hm_get (mgr_udp (manager c')) k = (if k \<in> set (udp_expired S ord now ?c1) then None else hm_get udp k)"
    and closed: "\<And>k e. k \<in> set (udp_expired S ord now ?c1) \<Longrightarrow> hm_get udp k = Some e \<Longrightarrow> is_closed (qs' ! ue_queue e)"
    using udp_reap_good [OF S r(2), of "udp_expired S ord now ?c1"] by auto
  have hit: "k \<in> fst ` set ?routed \<longleftrightarrow> datagrams_at S c k \<noteq> []" if "hm_get ?udp k = Some e" for k e
    using datagrams_at_routed [OF good that, of ord] payloads_for_hit [of k ?routed] by simp
  have "hm_wf udp" using udp_wfD(1) [OF goodD(4) [OF r(2)]] by simp
  then have exp: "k \<in> set (udp_expired S ord now ?c1) \<longleftrightarrow> (\<exists>e. hm_get udp k = Some e \<and> expired S (config c) now e)" for k
    by (simp add: in_udp_expired expired_def)
  show thesis
  proof (rule that [OF sl(1) r(1) reap(1,2)]; (intro allI impI)?)
    have "same_io ?c1 c'" by (rule udp_reaps_io [OF reap(1)])
    then show "same_io c c'" using sl(3) by (simp add: same_io_def)
    show next': "hm_get (mgr_udp (manager c')) k = next_udp S now c k" for k
      using hit [of k] by (cases "hm_get ?udp k") (auto simp: next_udp_def left upd exp)
    fix k e assume e: "hm_get ?udp k = Some e"
    have "ue_queue e < length qs1"
      using udp_wfD(5) [OF goodD(4) [OF good] e] after_routingD(1) [OF r(3)] by (simp add: same_queues_def)
    then have "q_inner (qs' ! ue_queue e) = q_inner (qs1 ! ue_queue e)" by (rule closing_inner [OF reap(3)])
    moreover have "is_closed (qs' ! ue_queue e)" if "next_udp S now c k = None"
      using that hit [OF e] e closed [of k "touched now (datagrams_at S c k \<noteq> []) e"]
      by (auto simp: next_udp_def exp upd Let_def split: if_splits)
    ultimately show "q_inner (qs' ! ue_queue e) = q_inner (qs ! ue_queue e) @ datagrams_at S c k \<and>
        (next_udp S now c k = None \<longrightarrow> is_closed (qs' ! ue_queue e))"
      using inner [OF e] datagrams_at_routed [OF good e] by simp
  qed (use reap(4) in simp)
qed

text \<open>The TCP half: the transitions, then the reaping.\<close>

lemma tcp_post_good:
  assumes S: "socket_set_laws S" and good: "good S 0 (ss @ acc) c qs"
  obtains c0 reap c1 rel where
    "tcp_transitions S ord (c, acc) = Some (c0, acc @ new_streams S ord c, reap)"
    "for_each (tcp_reap_one S) reap (c0, 0) = Some (c1, rel)"
    "good S (unat rel) (ss @ acc @ new_streams S ord c) c1 qs" "same_udp S c c1"
    "\<forall>k. hm_get (mgr_tcp (manager c1)) k = next_tcp S c k"
proof -
  let ?acc = "acc @ new_streams S ord c" and ?tcp = "mgr_tcp (manager c)"
  let ?reap = "concat (map (reapable_at S c) (hm_iter (ord_tcp ord) ?tcp))"
  note wf = tcp_wfD(1) [OF goodD(3) [OF good]]
  obtain tcp where t: "tcp_transitions S ord (c, acc) = Some (set_tcp tcp c, ?acc, ?reap)"
    "good S 0 (ss @ ?acc) (set_tcp tcp c) qs"
    "\<And>k. hm_get tcp k = map_option (next_entry_at S c k) (hm_get ?tcp k)"
    using tcp_transitions_result [OF good, of ord] unfolding new_streams_def by blast
  have orphaned: "te_orphaned e" if "k \<in> set ?reap" "hm_get (mgr_tcp (manager (set_tcp tcp c))) k = Some e" for k e
    using reapable_orphaned [OF wf that(1)] that(2) t(3) by simp
  have "good S (unat 0) (ss @ ?acc) (set_tcp tcp c) qs" using t(2) by simp
  then have "\<exists>c1 rel. for_each (tcp_reap_one S) ?reap (set_tcp tcp c, 0) = Some (c1, rel) \<and>
      good S (unat rel) (ss @ ?acc) c1 qs \<and> same_udp S (set_tcp tcp c) c1 \<and>
      (\<forall>k. hm_get (mgr_tcp (manager c1)) k =
        (if k \<in> set ?reap then None else hm_get (mgr_tcp (manager (set_tcp tcp c))) k))"
    by (rule tcp_reap_good [OF S]) (rule orphaned)
  then obtain c1 rel where r: "for_each (tcp_reap_one S) ?reap (set_tcp tcp c, 0) = Some (c1, rel)"
    "good S (unat rel) (ss @ ?acc) c1 qs" "same_udp S (set_tcp tcp c) c1"
    "\<And>k. hm_get (mgr_tcp (manager c1)) k = (if k \<in> set ?reap then None else hm_get tcp k)"
    unfolding set_tcp_simps by blast
  have "hm_get (mgr_tcp (manager c1)) k = next_tcp S c k" for k
    unfolding r(4) in_reapable [OF wf] t(3) by (auto simp: next_tcp_def split: option.split)
  then show thesis using that t(1) r(1,2) same_udp_trans [OF same_udp_set_tcp r(3)] by blast
qed

lemma post_pass_result:
  assumes S: "socket_set_laws S" and progress: "udp_recv_progress S queued" and good: "sh_good S 0 (ss @ acc) sh"
  shows "\<exists>sh'. post_pass S ord now (sh, acc) = Some (sh', acc @ new_streams S ord (sh_core sh)) \<and>
    sh_good S 0 (ss @ acc @ new_streams S ord (sh_core sh)) sh' \<and> post_spec S now sh sh'"
proof -
  let ?c = "sh_core sh" and ?acc = "acc @ new_streams S ord (sh_core sh)"
  obtain c0 reap c1 rel where t: "tcp_transitions S ord (?c, acc) = Some (c0, ?acc, reap)"
    and r: "for_each (tcp_reap_one S) reap (c0, 0) = Some (c1, rel)" "good S (unat rel) (ss @ ?acc) c1 (sh_queues sh)"
    and udp: "same_udp S ?c c1" and next_tcp_eq: "\<forall>k. hm_get (mgr_tcp (manager c1)) k = next_tcp S ?c k"
    by (rule tcp_post_good [OF S good, where ord = ord])
  have dgrams: "datagrams_at S c1 k = datagrams_at S ?c k" if "hm_get (mgr_udp (manager ?c)) k = Some e" for k e
    by (rule datagrams_at_same_udp [OF good udp that])
  have cfg: "config c1 = config ?c" "mgr_udp (manager c1) = mgr_udp (manager ?c)"
    using udp by (simp_all add: same_udp_def same_io_def)
  have next_eq: "next_udp S now c1 k = next_udp S now ?c k" for k
    using dgrams [of k] by (auto simp: next_udp_def cfg split: option.split)
  obtain sl c2 qs2 c' qs' rel' where u:
    "drain_slots S ord (manager c1) (slots c1) = Some (sl, concat (map (slot_routed S ord (manager c1)) (slots c1)))"
    "fold (route_datagram now) (concat (map (slot_routed S ord (manager c1)) (slots c1))) (c1\<lparr>slots := sl\<rparr>, sh_queues sh) =
      (c2, qs2)"
    "for_each (udp_reap_one S) (udp_expired S ord now c2) (c2, qs2, rel) = Some (c', qs', rel')"
    "good S (unat rel') (ss @ ?acc) c' qs'" "same_io c1 c'" "mgr_tcp (manager c') = mgr_tcp (manager c1)"
    "\<forall>k. hm_get (mgr_udp (manager c')) k = next_udp S now c1 k"
    "\<forall>k e. hm_get (mgr_udp (manager c1)) k = Some e \<longrightarrow>
       q_inner (qs' ! ue_queue e) = q_inner (sh_queues sh ! ue_queue e) @ datagrams_at S c1 k \<and>
       (next_udp S now c1 k = None \<longrightarrow> is_closed (qs' ! ue_queue e))"
    by (rule udp_post_good [OF S progress r(2), where ord = ord and now = now])
  let ?sh = "sh\<lparr>sh_core := release_buffer rel' c', sh_queues := qs'\<rparr>"
  have "post_pass S ord now (sh, acc) = Some (?sh, ?acc)"
    by (simp add: post_pass_def t r(1) u(1-3))
  moreover have "sh_good S 0 (ss @ ?acc) ?sh" using good_release [of S 0] u(4) by simp
  moreover have "post_spec S now sh ?sh"
  proof -
    have "same_io ?c c'" using udp u(5) by (auto simp: same_udp_def intro: same_io_trans)
    then show ?thesis using u(6-8) dgrams
      by (simp add: post_spec_def next_eq next_tcp_eq cfg same_io_def)
  qed
  ultimately show ?thesis by auto
qed

lemma new_streams_keys:
  "\<exists>streams. concat (map (handed_out_at S c) es) = map SessionTcp streams \<and>
    map ts_key streams = map fst (filter (\<lambda>x. handed_out_at S c x \<noteq> []) es)"
proof (induction es)
  case (Cons x es)
  obtain streams where IH: "concat (map (handed_out_at S c) es) = map SessionTcp streams"
    "map ts_key streams = map fst (filter (\<lambda>x. handed_out_at S c x \<noteq> []) es)" using Cons by blast
  obtain k e where x: "x = (k, e)" by fastforce
  consider "handed_out_at S c x = []" | "handed_out_at S c x = [SessionTcp (new_tcp_stream k e)]"
    unfolding x handed_out_at_def handed_out_def by (cases "fsm_at S c k e") (simp_all, metis)
  then show ?case
  proof cases
    case 1
    then show ?thesis using IH by auto
  next
    case 2
    then show ?thesis using IH by (intro exI [of _ "new_tcp_stream k e # streams"]) (simp add: x)
  qed
qed simp

lemma new_streams_exact:
  assumes wf: "hm_wf (mgr_tcp (manager c))"
  shows "\<exists>streams. new_streams S ord c = map SessionTcp streams \<and> distinct (map ts_key streams) \<and>
    (\<forall>st. st \<in> set streams \<longleftrightarrow>
      (\<exists>k e. hm_get (mgr_tcp (manager c)) k = Some e \<and> te_state e = TcpPending \<and>
        fsm_at S c k e = Some FsmEstablished \<and>
        st = way_tcp_stream_new (sk_interface k) k (te_handle e)
          (to_socket_addr (sk_src k)) (to_socket_addr (sk_dst k))))"
proof -
  let ?es = "hm_iter (ord_tcp ord) (mgr_tcp (manager c))"
  obtain streams where streams: "new_streams S ord c = map SessionTcp streams"
    "map ts_key streams = map fst (filter (\<lambda>x. handed_out_at S c x \<noteq> []) ?es)"
    using new_streams_keys [of S c ?es] by (auto simp: new_streams_def)
  have "distinct (map fst ?es)" using wf by simp
  then have "distinct (map ts_key streams)" unfolding streams(2) by (rule distinct_map_filter)
  moreover have "st \<in> set streams \<longleftrightarrow> (\<exists>k e. hm_get (mgr_tcp (manager c)) k = Some e \<and> te_state e = TcpPending \<and>
        fsm_at S c k e = Some FsmEstablished \<and> st = new_tcp_stream k e)" for st
  proof -
    have "st \<in> set streams \<longleftrightarrow> SessionTcp st \<in> set (new_streams S ord c)" by (auto simp: streams(1))
    also have "\<dots> \<longleftrightarrow> (\<exists>k e. (k, e) \<in> set (mgr_tcp (manager c)) \<and> te_state e = TcpPending \<and>
        fsm_at S c k e = Some FsmEstablished \<and> st = new_tcp_stream k e)"
      by (force simp: new_streams_def handed_out_at_def handed_out_def split: option.splits if_splits)
    finally show ?thesis unfolding hm_get_in [OF wf] .
  qed
  ultimately show ?thesis
    using streams(1) unfolding new_tcp_stream_def by blast
qed

section \<open>The poll cycle\<close>

lemma collect_egress_shape: "same_shape S c (fst (collect_egress c))"
  unfolding collect_egress_def fst_conv by (rule same_shape_map_slots) simp_all

text \<open>The four phases under the lock, each with the invariant it leaves.\<close>

lemma poll_locked_phases:
  assumes S: "socket_set_laws S" and bind: "udp_bind_law S" and poll: "poll_laws S"
    and progress: "udp_recv_progress S queued" and W: "wire_laws W" and good: "sh_good S 0 ss sh"
  obtains sh1 acc1 sh3 where
    "pre_pass S W now (sh, []) = Some (sh1, acc1)" "sh_good S 0 (ss @ acc1) sh1" "same_io (sh_core sh) (sh_core sh1)"
    "sh_good S 0 (ss @ acc1) (sh1\<lparr>sh_core := poll_slots S now (sh_core sh1)\<rparr>)"
    "post_pass S ord now (sh1\<lparr>sh_core := poll_slots S now (sh_core sh1)\<rparr>, acc1) =
      Some (sh3, acc1 @ new_streams S ord (poll_slots S now (sh_core sh1)))"
    "post_spec S now (sh1\<lparr>sh_core := poll_slots S now (sh_core sh1)\<rparr>) sh3"
    "poll_locked S W ord now sh =
      Some (sh3\<lparr>sh_core := fst (collect_egress (sh_core sh3))\<rparr>,
        acc1 @ new_streams S ord (poll_slots S now (sh_core sh1)), snd (collect_egress (sh_core sh3)))"
    "sh_good S 0 (ss @ acc1 @ new_streams S ord (poll_slots S now (sh_core sh1)))
      (sh3\<lparr>sh_core := fst (collect_egress (sh_core sh3))\<rparr>)"
proof -
  obtain sh1 acc1 where pre: "pre_pass S W now (sh, []) = Some (sh1, acc1)" "sh_good S 0 (ss @ acc1) sh1"
    "same_io (sh_core sh) (sh_core sh1)"
    using pre_pass_good [OF S bind W, of ss "[]" sh now] good by auto
  let ?sh2 = "sh1\<lparr>sh_core := poll_slots S now (sh_core sh1)\<rparr>"
  have two: "sh_good S 0 (ss @ acc1) ?sh2"
    using good_same_shape [OF poll_slots_shape [OF poll] pre(2)] by simp
  obtain sh3 where post: "post_pass S ord now (?sh2, acc1) = Some (sh3, acc1 @ new_streams S ord (sh_core ?sh2))"
    "sh_good S 0 (ss @ acc1 @ new_streams S ord (sh_core ?sh2)) sh3" "post_spec S now ?sh2 sh3"
    using post_pass_result [OF S progress two] by blast
  show thesis
    by (rule that [OF pre two])
      (use post pre(1) good_same_shape [OF collect_egress_shape post(2)] in \<open>simp_all add: poll_locked_def split_beta\<close>)
qed

lemma poll_locked_good:
  assumes "socket_set_laws S" and "udp_bind_law S" and "poll_laws S" and "udp_recv_progress S queued"
    and "wire_laws W" and "sh_good S 0 ss sh"
  shows "\<exists>sh' accepted out. poll_locked S W ord now sh = Some (sh', accepted, out) \<and> sh_good S 0 (ss @ accepted) sh'"
  by (rule poll_locked_phases [OF assms, where ord = ord and now = now]) blast

text \<open>The order in which the existing sessions are listed does not matter.\<close>

lemma good_mset:
  assumes "mset ss' = mset ss" and "good S debt ss c qs"
  shows "good S debt ss' c qs"
proof -
  have set: "set ss' = set ss" using assms(1) by (rule mset_eq_setD)
  have "mset [ts_key st. SessionTcp st \<leftarrow> xs] =
      (\<Sum>s\<in>#mset xs. case s of SessionTcp st \<Rightarrow> {#ts_key st#} | SessionUdp _ \<Rightarrow> {#})" for xs
    by (induction xs) (auto split: session.split)
  then have "mset [ts_key st. SessionTcp st \<leftarrow> ss'] = mset [ts_key st. SessionTcp st \<leftarrow> ss]"
    using assms(1) by simp
  then have "distinct [ts_key st. SessionTcp st \<leftarrow> ss'] = distinct [ts_key st. SessionTcp st \<leftarrow> ss]"
    by (rule mset_eq_imp_distinct_iff)
  then show ?thesis using assms(2) by (simp add: good_def tcp_owned_def udp_owned_def set)
qed

text \<open>
  A channel that accepts a session holds it from then on; this is what \<open>tokio\<close>'s unbounded channel
  promises while its receiver exists.
\<close>

definition channel_law :: "('a \<Rightarrow> session \<Rightarrow> 'a option) \<Rightarrow> ('a \<Rightarrow> session list) \<Rightarrow> bool" where
  "channel_law accept_send held \<longleftrightarrow>
     (\<forall>ch s ch'. accept_send ch s = Some ch' \<longrightarrow> held ch' = held ch @ [s])"

lemma forward_sessions_good:
  assumes S: "socket_set_laws S" and ch: "channel_law accept_send held"
    and good: "sh_good S 0 (ss @ held ch @ accepted) sh"
  shows "\<exists>sh' ch'. for_each (forward_session S accept_send) accepted (sh, ch) = Some (sh', ch') \<and>
    sh_good S 0 (ss @ held ch') sh'"
proof -
  let ?I = "\<lambda>todo (sh, ch). sh_good S 0 (ss @ held ch @ todo) sh"
  have "\<exists>s'. for_each (forward_session S accept_send) accepted (sh, ch) = Some s' \<and> ?I [] s'"
  proof (rule for_each_inv)
    show "?I accepted (sh, ch)" using good by simp
    fix s todo st assume I: "?I (s # todo) st"
    obtain sh ch where st: "st = (sh, ch)" by fastforce
    show "\<exists>s'. forward_session S accept_send s st = Some s' \<and> ?I todo s'"
    proof (cases "accept_send ch s")
      case None
      obtain sh' where "session_drop S s sh = Some sh'" "sh_good S 0 (remove1 s (ss @ held ch @ s # todo)) sh'"
        using session_drop_good [OF S, of 0 "ss @ held ch @ s # todo" sh s] I st by auto
      moreover have "mset (ss @ held ch @ todo) = mset (remove1 s (ss @ held ch @ s # todo))" by simp
      ultimately show ?thesis using good_mset None st by (fastforce simp: forward_session_def)
    next
      case (Some ch')
      then have "held ch' = held ch @ [s]" using ch by (simp add: channel_law_def)
      then show ?thesis using Some I st by (simp add: forward_session_def)
    qed
  qed
  then show ?thesis by auto
qed

lemma poll_once_good:
  assumes S: "socket_set_laws S" and "udp_bind_law S" and "poll_laws S" and "udp_recv_progress S queued"
    and "wire_laws W" and ch: "channel_law accept_send held"
    and good: "sh_good S 0 (ss @ held (ru_accept_tx ru) @ scratch_accepted ru) (ru_shared ru)"
  shows "\<exists>ru'. poll_once S W egress_send accept_send ord now ru = Some ru' \<and>
    sh_good S 0 (ss @ held (ru_accept_tx ru') @ scratch_accepted ru') (ru_shared ru')"
proof -
  let ?held = "ss @ held (ru_accept_tx ru)"
  have "mset (scratch_accepted ru @ ?held) = mset (ss @ held (ru_accept_tx ru) @ scratch_accepted ru)" by simp
  then obtain sh where clear: "for_each (session_drop S) (scratch_accepted ru) (ru_shared ru) = Some sh"
    "sh_good S 0 ?held sh"
    using session_drops_good [OF S] good_mset [OF _ good] by metis
  obtain sh' accepted out where locked: "poll_locked S W ord now sh = Some (sh', accepted, out)"
    "sh_good S 0 (?held @ accepted) sh'"
    using poll_locked_good [OF assms(1-5) clear(2)] by blast
  obtain ok etx where fwd: "forward_egress egress_send out (ru_egress_tx ru) = (ok, etx)" by fastforce
  show ?thesis
  proof (cases ok)
    case False
    then show ?thesis using locked by (simp add: poll_once_def clear(1) fwd)
  next
    case True
    have "sh_good S 0 (ss @ held (ru_accept_tx ru) @ accepted) sh'" using locked(2) by simp
    from forward_sessions_good [OF S ch this] obtain sh2 ch2 where
      "for_each (forward_session S accept_send) accepted (sh', ru_accept_tx ru) = Some (sh2, ch2)"
      "sh_good S 0 (ss @ held ch2) sh2" by blast
    then show ?thesis using True locked(1) by (simp add: poll_once_def clear(1) fwd)
  qed
qed

section \<open>Around the poll cycle\<close>

lemma queue_ingress_shape: "same_shape S (sh_core sh) (sh_core (queue_ingress pkt sh))"
  by (auto simp: queue_ingress_def intro!: same_shape_put_slot split: option.split)

lemma queue_ingress_queues: "sh_queues (queue_ingress pkt sh) = sh_queues sh"
  by (simp add: queue_ingress_def split: option.split)

lemma queue_ingress_good: "sh_good S debt ss sh \<Longrightarrow> sh_good S debt ss (queue_ingress pkt sh)"
  using good_same_shape [OF queue_ingress_shape] by (simp add: queue_ingress_queues)

lemma map2_map_right: "map2 f xs (map g xs) = map (\<lambda>x. f x (g x)) xs"
  by (induction xs) simp_all

lemma next_poll_delay_slots:
  "snd (next_poll_delay S now sh) = sh\<lparr>sh_core := (sh_core sh)\<lparr>slots := map (\<lambda>slot. slot\<lparr>iface :=
     fst (iface_poll_delay S now (iface slot) (sockets slot))\<rparr>) (slots (sh_core sh))\<rparr>\<rparr>"
  by (simp add: next_poll_delay_def Let_def map2_map_right)

lemma next_poll_delay_good:
  assumes "sh_good S debt ss sh"
  shows "sh_good S debt ss (snd (next_poll_delay S now sh))"
proof -
  have "same_shape S (sh_core sh) (sh_core (snd (next_poll_delay S now sh)))"
    unfolding next_poll_delay_slots by (simp, rule same_shape_map_slots) simp_all
  then show ?thesis using good_same_shape [OF _ assms] by (simp add: next_poll_delay_slots)
qed

lemma run_iteration_good:
  assumes "socket_set_laws S" and "udp_bind_law S" and "poll_laws S" and "udp_recv_progress S queued"
    and "wire_laws W" and "channel_law accept_send held"
    and good: "sh_good S 0 (ss @ held (ru_accept_tx ru) @ scratch_accepted ru) (ru_shared ru)"
  shows "\<exists>r. run_iteration S W egress_send accept_send ord t now wake queued_pkts ru = Some r \<and>
    (r = None \<longleftrightarrow> wake = WakeIngress None) \<and>
    (\<forall>ru'. r = Some ru' \<longrightarrow>
      sh_good S 0 (ss @ held (ru_accept_tx ru') @ scratch_accepted ru') (ru_shared ru'))"
proof (cases "wake = WakeIngress None")
  case True
  then show ?thesis by (simp add: run_iteration_def)
next
  case False
  then obtain pkts where pkts: "(case wake of WakeNotify \<Rightarrow> Some [] | WakeIngress (Some pkt) \<Rightarrow> Some [pkt]
      | WakeIngress None \<Rightarrow> None | WakeSleep \<Rightarrow> Some []) = Some pkts"
    using that by (cases wake) (auto split: option.splits)
  let ?sh = "fold queue_ingress (pkts @ queued_pkts) (snd (next_poll_delay S t (ru_shared ru)))"
  have fold_good: "sh_good S 0 live (fold queue_ingress ps sh)" if "sh_good S 0 live sh" for live ps sh
    using that by (induction ps arbitrary: sh) (simp_all add: queue_ingress_good)
  have "sh_good S 0 (ss @ held (ru_accept_tx ru) @ scratch_accepted ru) ?sh"
    by (intro fold_good next_poll_delay_good good)
  then obtain ru' where "poll_once S W egress_send accept_send ord now (ru\<lparr>ru_shared := ?sh\<rparr>) = Some ru'"
    "sh_good S 0 (ss @ held (ru_accept_tx ru') @ scratch_accepted ru') (ru_shared ru')"
    using poll_once_good [OF assms(1-6), of ss "ru\<lparr>ru_shared := ?sh\<rparr>" egress_send ord now] by auto
  then show ?thesis using False by (simp add: run_iteration_def pkts Let_def)
qed

end
