(* ===== verification/Builder.thy ===== *)
theory Builder
  imports Runner_Cycle
begin

text \<open>
  \<open>src/src/builder.rs\<close>: the configuration of interfaces and of the stack, and \<open>build\<close>, which wires the
  interfaces and creates the shared state. Every builder method that sets one field is a definition;
  \<open>add_interface\<close> rejects an identifier that is in use. The clock and the random seed that
  \<open>build_interface\<close> reads are parameters, per interface, and so are the channels of \<open>tokio\<close>.
  \<open>IpCidr::new\<close> and \<open>update_ip_addrs\<close> panic on an invalid prefix and on an address that is not unicast,
  so building is an option. The tuning of the allocator touches no state of the stack.
\<close>

section \<open>Interface configuration\<close>

record interface_config =
  ic_ipv4_addrs :: "(32 word \<times> u8) list"
  ic_ipv6_addrs :: "(128 word \<times> u8) list"
  ic_ipv4_gateway :: "32 word option"
  ic_ipv6_gateway :: "128 word option"

definition interface_config_default :: interface_config where
  "interface_config_default =
     \<lparr>ic_ipv4_addrs = [], ic_ipv6_addrs = [], ic_ipv4_gateway = None, ic_ipv6_gateway = None\<rparr>"

definition interface_config_new :: "32 word \<Rightarrow> u8 \<Rightarrow> interface_config" where
  "interface_config_new ipv4 prefix = interface_config_default\<lparr>ic_ipv4_addrs := [(ipv4, prefix)]\<rparr>"

definition interface_config_new_ipv6 :: "128 word \<Rightarrow> u8 \<Rightarrow> interface_config" where
  "interface_config_new_ipv6 ipv6 prefix = interface_config_default\<lparr>ic_ipv6_addrs := [(ipv6, prefix)]\<rparr>"

definition ic_ipv4 :: "32 word \<Rightarrow> u8 \<Rightarrow> interface_config \<Rightarrow> interface_config" where
  "ic_ipv4 addr prefix ic = ic\<lparr>ic_ipv4_addrs := ic_ipv4_addrs ic @ [(addr, prefix)]\<rparr>"

definition ic_ipv6 :: "128 word \<Rightarrow> u8 \<Rightarrow> interface_config \<Rightarrow> interface_config" where
  "ic_ipv6 addr prefix ic = ic\<lparr>ic_ipv6_addrs := ic_ipv6_addrs ic @ [(addr, prefix)]\<rparr>"

definition gateway_ipv4 :: "32 word \<Rightarrow> interface_config \<Rightarrow> interface_config" where
  "gateway_ipv4 gw ic = ic\<lparr>ic_ipv4_gateway := Some gw\<rparr>"

definition gateway_ipv6 :: "128 word \<Rightarrow> interface_config \<Rightarrow> interface_config" where
  "gateway_ipv6 gw ic = ic\<lparr>ic_ipv6_gateway := Some gw\<rparr>"

section \<open>The builder\<close>

record netstack_builder =
  nb_config :: netstack_config
  nb_interfaces :: "(interface_id \<times> interface_config) list"

definition netstack_builder_new :: netstack_builder where
  "netstack_builder_new = \<lparr>nb_config = netstack_config_default, nb_interfaces = []\<rparr>"

definition nb_mtu :: "usize \<Rightarrow> netstack_builder \<Rightarrow> netstack_builder" where
  "nb_mtu mtu b = b\<lparr>nb_config := (nb_config b)\<lparr>cfg_mtu := mtu\<rparr>\<rparr>"

definition nb_tcp_buffer_size :: "usize \<Rightarrow> netstack_builder \<Rightarrow> netstack_builder" where
  "nb_tcp_buffer_size n b = b\<lparr>nb_config := (nb_config b)\<lparr>cfg_tcp_buffer_size := n\<rparr>\<rparr>"

definition nb_tcp_max_connections :: "usize \<Rightarrow> netstack_builder \<Rightarrow> netstack_builder" where
  "nb_tcp_max_connections n b = b\<lparr>nb_config := (nb_config b)\<lparr>cfg_tcp_max_connections := n\<rparr>\<rparr>"

definition nb_tcp_socket_pool :: "usize \<Rightarrow> netstack_builder \<Rightarrow> netstack_builder" where
  "nb_tcp_socket_pool n b = b\<lparr>nb_config := (nb_config b)\<lparr>cfg_tcp_pool_size := n\<rparr>\<rparr>"

definition nb_udp_session_timeout :: "std_duration \<Rightarrow> netstack_builder \<Rightarrow> netstack_builder" where
  "nb_udp_session_timeout timeout b =
     b\<lparr>nb_config := (nb_config b)\<lparr>cfg_udp_session_timeout := timeout\<rparr>\<rparr>"

definition nb_udp_max_sessions :: "usize \<Rightarrow> netstack_builder \<Rightarrow> netstack_builder" where
  "nb_udp_max_sessions n b = b\<lparr>nb_config := (nb_config b)\<lparr>cfg_udp_max_sessions := n\<rparr>\<rparr>"

definition nb_channel_capacity :: "usize \<Rightarrow> netstack_builder \<Rightarrow> netstack_builder" where
  "nb_channel_capacity n b = b\<lparr>nb_config := (nb_config b)\<lparr>cfg_channel_capacity := n\<rparr>\<rparr>"

definition nb_log_level :: "log_level \<Rightarrow> netstack_builder \<Rightarrow> netstack_builder" where
  "nb_log_level level b = b\<lparr>nb_config := (nb_config b)\<lparr>cfg_log_level := level\<rparr>\<rparr>"

definition nb_udp_buffer :: "usize \<Rightarrow> usize \<Rightarrow> netstack_builder \<Rightarrow> netstack_builder" where
  "nb_udp_buffer packets bytes b =
     b\<lparr>nb_config := (nb_config b)\<lparr>cfg_udp_buffer_packets := packets, cfg_udp_buffer_bytes := bytes\<rparr>\<rparr>"

definition nb_max_buffer_bytes :: "usize option \<Rightarrow> netstack_builder \<Rightarrow> netstack_builder" where
  "nb_max_buffer_bytes limit b = b\<lparr>nb_config := (nb_config b)\<lparr>cfg_max_buffer_bytes := limit\<rparr>\<rparr>"

definition nb_mimalloc_purge_delay :: "std_duration \<Rightarrow> netstack_builder \<Rightarrow> netstack_builder" where
  "nb_mimalloc_purge_delay delay b =
     b\<lparr>nb_config := (nb_config b)\<lparr>cfg_mimalloc_purge_delay := Some delay\<rparr>\<rparr>"

definition nb_mimalloc_large_os_pages :: "bool \<Rightarrow> netstack_builder \<Rightarrow> netstack_builder" where
  "nb_mimalloc_large_os_pages enabled b =
     b\<lparr>nb_config := (nb_config b)\<lparr>cfg_mimalloc_large_os_pages := enabled\<rparr>\<rparr>"

definition nb_mimalloc_allow_thp :: "bool \<Rightarrow> netstack_builder \<Rightarrow> netstack_builder" where
  "nb_mimalloc_allow_thp enabled b =
     b\<lparr>nb_config := (nb_config b)\<lparr>cfg_mimalloc_allow_thp := enabled\<rparr>\<rparr>"

definition add_interface ::
    "interface_id \<Rightarrow> interface_config \<Rightarrow> netstack_builder \<Rightarrow> netstack_error + netstack_builder" where
  "add_interface id' spec b =
     (if list_ex (\<lambda>(i, _). i = id') (nb_interfaces b) then Inl (InterfaceNotFound id')
      else Inr (b\<lparr>nb_interfaces := nb_interfaces b @ [(id', spec)]\<rparr>))"

section \<open>Building\<close>

text \<open>
  \<open>addrs.push\<close> on the interface's address table, which has room for \<open>iface_max_addr_count\<close> entries; an
  address that does not fit is dropped with a warning.
\<close>

definition push_addr ::
    "('i, 's, 't, 'u, 'x) smoltcp_scheme \<Rightarrow> ip_address \<times> u8 \<Rightarrow> ip_cidr list \<Rightarrow> ip_cidr list option" where
  "push_addr S = (\<lambda>(addr, prefix) addrs. do {
     cidr \<leftarrow> cidr_new S addr prefix;
     Some (if length addrs < iface_max_addr_count S then addrs @ [cidr] else addrs)
   })"

definition build_interface ::
    "('i, 's, 't, 'u, 'x) smoltcp_scheme \<Rightarrow> (interface_id \<Rightarrow> 64 word) \<Rightarrow> (interface_id \<Rightarrow> instant) \<Rightarrow>
     netstack_config \<Rightarrow> interface_id \<times> interface_config \<Rightarrow> ('i, 's, 't) interface_slot option" where
  "build_interface S seed now cfg = (\<lambda>(id', spec). do {
     let device = virtual_device_new (cfg_mtu cfg);
     let (ifc, device) = iface_new S (seed id') device (now id');
     let ifc = iface_set_any_ip S ifc True;
     addrs \<leftarrow> for_each (push_addr S) (map (apfst Ipv4) (ic_ipv4_addrs spec)) (iface_ip_addrs S ifc);
     addrs \<leftarrow> for_each (push_addr S) (map (apfst Ipv6) (ic_ipv6_addrs spec)) addrs;
     ifc \<leftarrow> iface_set_ip_addrs S ifc addrs;
     let ifc =
       (case ic_ipv4_gateway spec of
          Some gw \<Rightarrow> iface_add_default_ipv4_route S ifc gw
        | None \<Rightarrow>
            (case ic_ipv4_addrs spec of
               (first, _) # _ \<Rightarrow> iface_add_default_ipv4_route S ifc first
             | [] \<Rightarrow> ifc));
     let ifc =
       (case ic_ipv6_gateway spec of
          Some gw \<Rightarrow> iface_add_default_ipv6_route S ifc gw
        | None \<Rightarrow>
            (case ic_ipv6_addrs spec of
               (first, _) # _ \<Rightarrow> iface_add_default_ipv6_route S ifc first
             | [] \<Rightarrow> ifc));
     Some (interface_slot_new id' ifc device (ss_new S) (cfg_tcp_pool_size cfg) (cfg_mtu cfg)
       (cfg_tcp_buffer_size cfg))
   })"

definition push_interface ::
    "('i, 's, 't, 'u, 'x) smoltcp_scheme \<Rightarrow> (interface_id \<Rightarrow> 64 word) \<Rightarrow> (interface_id \<Rightarrow> instant) \<Rightarrow>
     netstack_config \<Rightarrow> interface_id \<times> interface_config \<Rightarrow> ('i, 's, 't) core \<Rightarrow> ('i, 's, 't) core option" where
  "push_interface S seed now cfg i c = do {
     slot \<leftarrow> build_interface S seed now cfg i;
     Some (c\<lparr>slots := slots c @ [slot]\<rparr>)
   }"

record ('i, 's, 't, 'itx, 'arx) netstack_handle =
  nh_shared :: "('i, 's, 't) shared"
  nh_ingress_tx :: 'itx
  nh_accept_rx :: 'arx

definition netstack_handle_new ::
    "('i, 's, 't) shared \<Rightarrow> 'itx \<Rightarrow> 'arx \<Rightarrow> ('i, 's, 't, 'itx, 'arx) netstack_handle" where
  "netstack_handle_new sh ingress_tx accept_rx =
     \<lparr>nh_shared = sh, nh_ingress_tx = ingress_tx, nh_accept_rx = accept_rx\<rparr>"

text \<open>
  The three channels are created by the parameters \<open>ingress_channel\<close>, \<open>egress_channel\<close> (of a capacity)
  and \<open>accept_channel\<close>, as a pair of sender and receiver. The result is the runner that is spawned,
  the receiver it reads packets from, the handle and the egress receiver.
\<close>

definition build ::
    "('i, 's, 't, 'u, 'x) smoltcp_scheme \<Rightarrow> (interface_id \<Rightarrow> 64 word) \<Rightarrow> (interface_id \<Rightarrow> instant) \<Rightarrow>
     (usize \<Rightarrow> 'itx \<times> 'irx) \<Rightarrow> (usize \<Rightarrow> 'e \<times> 'erx) \<Rightarrow> 'a \<times> 'arx \<Rightarrow> netstack_builder \<Rightarrow>
     (('i, 's, 't, 'e, 'a) runner \<times> 'irx \<times> ('i, 's, 't, 'itx, 'arx) netstack_handle \<times> 'erx) option" where
  "build S seed now ingress_channel egress_channel accept_channel b = do {
     let c = \<lparr>slots = [], manager = session_manager_default, config = nb_config b, buffer_bytes = 0\<rparr>;
     c \<leftarrow> for_each (push_interface S seed now (nb_config b)) (nb_interfaces b) c;
     let sh = shared_new c;
     let cap = max (cfg_channel_capacity (nb_config b)) 1;
     let (ingress_tx, ingress_rx) = ingress_channel cap;
     let (egress_tx, egress_rx) = egress_channel cap;
     let (accept_tx, accept_rx) = accept_channel;
     let runner = runner_new sh egress_tx accept_tx;
     let handle = netstack_handle_new sh ingress_tx accept_rx;
     Some (runner, ingress_rx, handle, egress_rx)
   }"

text \<open>
  The tuning of the allocator, which \<open>build\<close> applies first when the feature \<open>allocator\<close> is on. Writing an
  option is the parameter \<open>option_set\<close> on the allocator's own state; a C \<open>long\<close> has 64 bits, and the cast of
  the milliseconds truncates.
\<close>

datatype mi_option = MiPurgeDelay | MiAllowLargeOsPages | MiAllowThp

definition apply_mimalloc_tuning ::
    "(mi_option \<Rightarrow> 64 word \<Rightarrow> 'm \<Rightarrow> 'm) \<Rightarrow> netstack_config \<Rightarrow> 'm \<Rightarrow> 'm" where
  "apply_mimalloc_tuning option_set cfg mi =
     (let mi = (case cfg_mimalloc_purge_delay cfg of
                  Some delay \<Rightarrow> option_set MiPurgeDelay (of_nat (delay div 1000000)) mi
                | None \<Rightarrow> mi);
          mi = option_set MiAllowLargeOsPages (of_bool (cfg_mimalloc_large_os_pages cfg)) mi
      in option_set MiAllowThp (of_bool (cfg_mimalloc_allow_thp cfg)) mi)"

definition build_tuned ::
    "(mi_option \<Rightarrow> 64 word \<Rightarrow> 'm \<Rightarrow> 'm) \<Rightarrow> ('i, 's, 't, 'u, 'x) smoltcp_scheme \<Rightarrow> (interface_id \<Rightarrow> 64 word) \<Rightarrow>
     (interface_id \<Rightarrow> instant) \<Rightarrow> (usize \<Rightarrow> 'itx \<times> 'irx) \<Rightarrow> (usize \<Rightarrow> 'e \<times> 'erx) \<Rightarrow> 'a \<times> 'arx \<Rightarrow>
     netstack_builder \<Rightarrow> 'm \<Rightarrow>
     'm \<times> (('i, 's, 't, 'e, 'a) runner \<times> 'irx \<times> ('i, 's, 't, 'itx, 'arx) netstack_handle \<times> 'erx) option" where
  "build_tuned option_set S seed now ingress_channel egress_channel accept_channel b mi =
     (apply_mimalloc_tuning option_set (nb_config b) mi,
      build S seed now ingress_channel egress_channel accept_channel b)"

text \<open>
  On an allocator that keeps what was written last: a purge delay that is not configured is left alone, the
  other two options are always overwritten, also with the builder's defaults.
\<close>

lemma apply_mimalloc_tuning_options:
  "apply_mimalloc_tuning (\<lambda>opt v m. m(opt := v)) cfg m MiPurgeDelay =
     (case cfg_mimalloc_purge_delay cfg of Some d \<Rightarrow> of_nat (d div 1000000) | None \<Rightarrow> m MiPurgeDelay)"
  "apply_mimalloc_tuning (\<lambda>opt v m. m(opt := v)) cfg m MiAllowLargeOsPages =
     of_bool (cfg_mimalloc_large_os_pages cfg)"
  "apply_mimalloc_tuning (\<lambda>opt v m. m(opt := v)) cfg m MiAllowThp = of_bool (cfg_mimalloc_allow_thp cfg)"
  by (simp_all add: apply_mimalloc_tuning_def Let_def split: option.split)

section \<open>What the builder establishes\<close>

definition builder_wf :: "netstack_builder \<Rightarrow> bool" where
  "builder_wf b \<longleftrightarrow> distinct (map fst (nb_interfaces b))"

lemma builder_wf_setters [simp]:
  "builder_wf netstack_builder_new"
  "builder_wf (nb_mtu n b) = builder_wf b"
  "builder_wf (nb_tcp_buffer_size n b) = builder_wf b"
  "builder_wf (nb_tcp_max_connections n b) = builder_wf b"
  "builder_wf (nb_tcp_socket_pool n b) = builder_wf b"
  "builder_wf (nb_udp_session_timeout d b) = builder_wf b"
  "builder_wf (nb_udp_max_sessions n b) = builder_wf b"
  "builder_wf (nb_channel_capacity n b) = builder_wf b"
  "builder_wf (nb_log_level l b) = builder_wf b"
  "builder_wf (nb_udp_buffer n m b) = builder_wf b"
  "builder_wf (nb_max_buffer_bytes lim b) = builder_wf b"
  "builder_wf (nb_mimalloc_purge_delay d b) = builder_wf b"
  "builder_wf (nb_mimalloc_large_os_pages f b) = builder_wf b"
  "builder_wf (nb_mimalloc_allow_thp f b) = builder_wf b"
  by (simp_all add: builder_wf_def netstack_builder_new_def nb_mtu_def nb_tcp_buffer_size_def
      nb_tcp_max_connections_def nb_tcp_socket_pool_def nb_udp_session_timeout_def nb_udp_max_sessions_def
      nb_channel_capacity_def nb_log_level_def nb_udp_buffer_def nb_max_buffer_bytes_def
      nb_mimalloc_purge_delay_def nb_mimalloc_large_os_pages_def nb_mimalloc_allow_thp_def)

lemma add_interface_result:
  "add_interface i spec b =
    (if i \<in> fst ` set (nb_interfaces b) then Inl (InterfaceNotFound i)
     else Inr (b\<lparr>nb_interfaces := nb_interfaces b @ [(i, spec)]\<rparr>))"
  by (force simp: add_interface_def list_ex_iff)

lemma builder_wf_add: "builder_wf b \<Longrightarrow> add_interface i spec b = Inr b' \<Longrightarrow> builder_wf b'"
  by (auto simp: add_interface_result builder_wf_def split: if_splits)

lemma build_interface_slot:
  assumes "build_interface S seed now cfg (i, spec) = Some s"
  shows "slot_id s = i \<and> slot_mtu s = cfg_mtu cfg \<and> slot_tcp_buffer_size s = cfg_tcp_buffer_size cfg \<and>
    slot_tcp_pool_max s = cfg_tcp_pool_size cfg \<and> tcp_pool s = [] \<and> sockets s = ss_new S"
  using assms
  by (auto simp: build_interface_def Let_def bind_eq_Some_conv interface_slot_new_def split: prod.splits)

lemma push_interface_Some:
  "push_interface S seed now cfg x c = Some c' \<longleftrightarrow>
    (\<exists>s. build_interface S seed now cfg x = Some s \<and> c' = c\<lparr>slots := slots c @ [s]\<rparr>)"
  by (auto simp: push_interface_def bind_eq_Some_conv)

lemma push_interfaces:
  assumes "for_each (push_interface S seed now cfg) is c = Some c'"
  shows "map slot_id (slots c') = map slot_id (slots c) @ map fst is \<and>
    manager c' = manager c \<and> config c' = config c \<and> buffer_bytes c' = buffer_bytes c \<and>
    (\<forall>s \<in> set (slots c') - set (slots c). slot_mtu s = cfg_mtu cfg \<and>
       slot_tcp_buffer_size s = cfg_tcp_buffer_size cfg \<and> slot_tcp_pool_max s = cfg_tcp_pool_size cfg \<and>
       tcp_pool s = [] \<and> sockets s = ss_new S)"
  using assms
proof (induction "is" arbitrary: c)
  case Nil
  then show ?case by simp
next
  case (Cons x xs)
  obtain i spec where x: "x = (i, spec)" by fastforce
  obtain s where s: "build_interface S seed now cfg (i, spec) = Some s"
    "for_each (push_interface S seed now cfg) xs (c\<lparr>slots := slots c @ [s]\<rparr>) = Some c'"
    using Cons.prems x by (auto simp: push_interface_Some bind_eq_Some_conv)
  from Cons.IH [OF s(2)] build_interface_slot [OF s(1)] show ?case by (auto simp: x)
qed

lemma build_good:
  assumes S: "socket_set_laws S" and wf: "builder_wf b" and cfg: "config_ok (nb_config b)"
    and build: "build S seed now ich ech ach b = Some (ru, irx, h, erx)"
  shows "sh_good S 0 [] (ru_shared ru)" and "nh_shared h = ru_shared ru" and "scratch_accepted ru = []"
    and "map slot_id (slots (sh_core (ru_shared ru))) = map fst (nb_interfaces b)"
    and "config (sh_core (ru_shared ru)) = nb_config b"
proof -
  let ?c = "\<lparr>slots = [], manager = session_manager_default, config = nb_config b, buffer_bytes = 0\<rparr>"
  obtain c where c: "for_each (push_interface S seed now (nb_config b)) (nb_interfaces b) ?c = Some c"
    and ru: "ru_shared ru = shared_new c" "nh_shared h = shared_new c" "scratch_accepted ru = []"
    using build by (auto simp: build_def Let_def bind_eq_Some_conv runner_new_def netstack_handle_new_def
        split_beta)
  note p = push_interfaces [OF c]
  show "nh_shared h = ru_shared ru" and "scratch_accepted ru = []" using ru by simp_all
  show "map slot_id (slots (sh_core (ru_shared ru))) = map fst (nb_interfaces b)"
    and "config (sh_core (ru_shared ru)) = nb_config b"
    using p ru by (simp_all add: shared_new_def)
  have m: "mgr_tcp (manager c) = []" "mgr_udp (manager c) = []" "udp_dst_sockets (manager c) = []"
    using p by (simp_all add: session_manager_default_def)
  have "slots_wf c" using p wf by (auto simp: slots_wf_def builder_wf_def)
  then show "sh_good S 0 [] (ru_shared ru)"
    using p m cfg
    by (simp add: ru shared_new_def good_def core_inv_def tcp_wf_def udp_wf_def accounted_def
        within_cap_def tcp_owned_def udp_owned_def)
qed

lemma config_ok_default: "config_ok netstack_config_default"
  by (simp add: config_ok_def tcp_cost_def udp_cost_def netstack_config_default_def)

end
