(* ===== verification/Handle.thy ===== *)
theory Handle
  imports Builder
begin

text \<open>
  \<open>src/src/handle.rs\<close>: injecting packets and accepting sessions. The bounded ingress channel is a
  parameter \<open>try_send\<close> with the two errors of \<open>tokio\<close>'s \<open>Sender::try_send\<close>, the receiver of accepted
  sessions a parameter \<open>recv\<close>; both are polled without blocking.
\<close>

datatype try_send_error = TrySendFull | TrySendClosed

definition send_ip_packet ::
    "('q \<Rightarrow> ingress_packet \<Rightarrow> try_send_error + 'q) \<Rightarrow> interface_id \<Rightarrow> bytes \<Rightarrow>
     ('i, 's, 't) shared \<times> 'q \<Rightarrow> (netstack_error + unit) \<times> ('i, 's, 't) shared \<times> 'q" where
  "send_ip_packet try_send interface_id packet = (\<lambda>(sh, ingress_tx).
     if core_slot (sh_core sh) interface_id = None
     then (Inl (InterfaceNotFound interface_id), sh, ingress_tx)
     else
       let pkt = \<lparr>ig_interface = interface_id, ig_data = packet\<rparr>
       in case try_send ingress_tx pkt of
            Inr ingress_tx \<Rightarrow> (Inr (), notify_poll sh, ingress_tx)
          | Inl TrySendFull \<Rightarrow> (Inl ChannelFull, sh, ingress_tx)
          | Inl TrySendClosed \<Rightarrow> (Inl ChannelClosed, sh, ingress_tx))"

definition accept_poll :: "('r \<Rightarrow> session option poll \<times> 'r) \<Rightarrow> 'r \<Rightarrow> session option poll \<times> 'r" where
  "accept_poll recv accept_rx = recv accept_rx"

definition interface_ids :: "('i, 's, 't) shared \<Rightarrow> interface_id list" where
  "interface_ids sh = map slot_id (slots (sh_core sh))"

lemma send_ip_packet_core [simp]:
  "sh_core (fst (snd (send_ip_packet try_send i packet (sh, q)))) = sh_core sh"
  "sh_queues (fst (snd (send_ip_packet try_send i packet (sh, q)))) = sh_queues sh"
  by (simp_all add: send_ip_packet_def Let_def split: sum.split try_send_error.split)

lemma core_slot_interface_ids: "core_slot (sh_core sh) i = None \<longleftrightarrow> i \<notin> set (interface_ids sh)"
  by (simp add: core_slot_None interface_ids_def)

end
