(* ===== verification/System.thy ===== *)
theory System
  imports Handle
begin

text \<open>
  The running stack as a transition system. Every access of the sources to the shared state holds the
  mutex, so a run is a sequence of critical sections in any order: the runner's poll cycle, its other
  accesses, the operations of the application on the sessions it was given, and the drop of a session.
  A world is the shared state with the list of session values that exist, wherever they are: in the
  runner's scratch buffer, in the accept channel or in the hands of the application.
\<close>

section \<open>Transition systems and their invariants\<close>

inductive reach :: "('w \<Rightarrow> bool) \<Rightarrow> ('a \<Rightarrow> 'w \<Rightarrow> 'w \<Rightarrow> bool) \<Rightarrow> 'w \<Rightarrow> bool"
  for initial :: "'w \<Rightarrow> bool" and step :: "'a \<Rightarrow> 'w \<Rightarrow> 'w \<Rightarrow> bool" where
  reach_initial: "initial w \<Longrightarrow> reach initial step w"
| reach_step: "reach initial step w \<Longrightarrow> step a w w' \<Longrightarrow> reach initial step w'"

inductive run :: "('a \<Rightarrow> 'w \<Rightarrow> 'w \<Rightarrow> bool) \<Rightarrow> 'w \<Rightarrow> 'a list \<Rightarrow> 'w \<Rightarrow> bool"
  for step :: "'a \<Rightarrow> 'w \<Rightarrow> 'w \<Rightarrow> bool" where
  run_nil: "run step w [] w"
| run_cons: "step a w w' \<Longrightarrow> run step w' as w'' \<Longrightarrow> run step w (a # as) w''"

lemma run_append: "run step w as w' \<Longrightarrow> run step w' bs w'' \<Longrightarrow> run step w (as @ bs) w''"
  by (induction rule: run.induct) (auto intro: run_cons)

lemma run_one: "step a w w' \<Longrightarrow> run step w [a] w'"
  by (rule run_cons [OF _ run_nil])

locale transition_invariant =
  fixes initial :: "'w \<Rightarrow> bool"
    and step :: "'a \<Rightarrow> 'w \<Rightarrow> 'w \<Rightarrow> bool"
    and inv :: "'w \<Rightarrow> bool"
  assumes initial_inv: "initial w \<Longrightarrow> inv w"
    and step_inv: "inv w \<Longrightarrow> step a w w' \<Longrightarrow> inv w'"
begin

lemma reach_inv: "reach initial step w \<Longrightarrow> inv w"
  by (induction rule: reach.induct) (auto intro: initial_inv step_inv)

lemma run_inv: "run step w as w' \<Longrightarrow> inv w \<Longrightarrow> inv w'"
  by (induction rule: run.induct) (auto intro: step_inv)

lemma reach_run: "run step w as w' \<Longrightarrow> reach initial step w \<Longrightarrow> reach initial step w'"
  by (induction rule: run.induct) (auto intro: reach_step)

end

section \<open>The stack\<close>

type_synonym ('i, 's, 't) world = "('i, 's, 't) shared \<times> session list"

datatype action =
    ActPoll iter_order instant
  | ActIngress ingress_packet
  | ActDelay instant
  | ActRead way_tcp_stream waker nat
  | ActWrite way_tcp_stream waker bytes
  | ActShutdown way_tcp_stream
  | ActRecv way_udp_session
  | ActSend way_udp_session bytes
  | ActDrop session
  | ActNotify
  | ActNotifyDone

text \<open>An operation on a session needs the session; the rest may happen at any time.\<close>

fun enabled :: "action \<Rightarrow> session list \<Rightarrow> bool" where
  "enabled (ActRead st wk n) live = (SessionTcp st \<in> set live)"
| "enabled (ActWrite st wk data) live = (SessionTcp st \<in> set live)"
| "enabled (ActShutdown st) live = (SessionTcp st \<in> set live)"
| "enabled (ActRecv us) live = (SessionUdp us \<in> set live)"
| "enabled (ActSend us payload) live = (SessionUdp us \<in> set live)"
| "enabled (ActDrop s) live = (s \<in> set live)"
| "enabled _ live = True"

text \<open>The critical section of an action; \<open>None\<close> is a panic.\<close>

fun perform ::
    "('i, 's, 't, 'u, 'x) smoltcp_scheme \<Rightarrow> wire \<Rightarrow> action \<Rightarrow> ('i, 's, 't) world \<Rightarrow>
     ('i, 's, 't) world option" where
  "perform S W (ActPoll ord now) (sh, live) =
     map_option (\<lambda>(sh, accepted, out). (sh, live @ accepted)) (poll_locked S W ord now sh)"
| "perform S W (ActIngress pkt) (sh, live) = Some (queue_ingress pkt sh, live)"
| "perform S W (ActDelay now) (sh, live) = Some (snd (next_poll_delay S now sh), live)"
| "perform S W (ActRead st wk n) (sh, live) =
     map_option (\<lambda>(r, sh). (sh, live)) (tcp_poll_read S st wk n sh)"
| "perform S W (ActWrite st wk data) (sh, live) =
     map_option (\<lambda>(r, sh). (sh, live)) (tcp_poll_write S st wk data sh)"
| "perform S W (ActShutdown st) (sh, live) =
     map_option (\<lambda>(r, sh). (sh, live)) (tcp_poll_shutdown S st sh)"
| "perform S W (ActRecv us) (sh, live) = Some (snd (udp_recv_poll us sh), live)"
| "perform S W (ActSend us payload) (sh, live) =
     map_option (\<lambda>(r, sh). (sh, live)) (udp_send_poll S us payload sh)"
| "perform S W (ActDrop s) (sh, live) = map_option (\<lambda>sh. (sh, remove1 s live)) (session_drop S s sh)"
| "perform S W ActNotify (sh, live) = Some (notify_poll sh, live)"
| "perform S W ActNotifyDone (sh, live) = Some (notify_poll_done sh, live)"

inductive step ::
    "('i, 's, 't, 'u, 'x) smoltcp_scheme \<Rightarrow> wire \<Rightarrow> action \<Rightarrow> ('i, 's, 't) world \<Rightarrow> ('i, 's, 't) world \<Rightarrow> bool"
  for S :: "('i, 's, 't, 'u, 'x) smoltcp_scheme" and W :: wire where
  "enabled a live \<Longrightarrow> perform S W a (sh, live) = Some w' \<Longrightarrow> step S W a (sh, live) w'"

inductive_cases stepE: "step S W a w w'"
inductive_simps step_iff: "step S W a (sh, live) w'"

text \<open>
  The worlds a builder starts: no session exists yet. The channels play no part in the shared state, so
  they are of the unit type here. \<open>config_ok\<close> says that the budget counter cannot wrap around.
\<close>

inductive started :: "('i, 's, 't, 'u, 'x) smoltcp_scheme \<Rightarrow> ('i, 's, 't) world \<Rightarrow> bool"
  for S :: "('i, 's, 't, 'u, 'x) smoltcp_scheme" where
  "builder_wf b \<Longrightarrow> config_ok (nb_config b) \<Longrightarrow>
    build S seed now (\<lambda>_. ((), ())) (\<lambda>_. ((), ())) ((), ()) b = Some (ru, irx, h, erx) \<Longrightarrow>
    started S (ru_shared ru, [])"

definition engine_laws :: "('i, 's, 't, 'u, 'x) smoltcp_scheme \<Rightarrow> wire \<Rightarrow> bool" where
  "engine_laws S W \<longleftrightarrow>
     socket_set_laws S \<and> poll_laws S \<and> udp_bind_law S \<and> (\<exists>queued. udp_recv_progress S queued) \<and> wire_laws W"

definition world_good :: "('i, 's, 't, 'u, 'x) smoltcp_scheme \<Rightarrow> ('i, 's, 't) world \<Rightarrow> bool" where
  "world_good S w = sh_good S 0 (snd w) (fst w)"

lemma perform_good:
  assumes laws: "engine_laws S W" and good: "world_good S (sh, live)" and en: "enabled a live"
  shows "\<exists>w'. perform S W a (sh, live) = Some w' \<and> world_good S w'"
proof -
  obtain queued where S: "socket_set_laws S" and poll: "poll_laws S" "udp_bind_law S" "udp_recv_progress S queued" "wire_laws W"
    using laws by (auto simp: engine_laws_def)
  have g: "sh_good S 0 live sh" using good by (simp add: world_good_def)
  show ?thesis
  proof (cases a)
    case (ActPoll ord now)
    then show ?thesis using poll_locked_good [OF S poll(2,1,3,4) g, of ord now] by (auto simp: world_good_def)
  next
    case (ActRead st wk n)
    then show ?thesis using tcp_poll_read_good [OF S g, of st wk n] en by (auto simp: world_good_def)
  next
    case (ActWrite st wk data)
    then show ?thesis using tcp_poll_write_good [OF S g, of st wk data] en by (auto simp: world_good_def)
  next
    case (ActShutdown st)
    then show ?thesis using tcp_poll_shutdown_good [OF S g, of st] en by (auto simp: world_good_def)
  next
    case (ActSend us payload)
    then show ?thesis using udp_send_poll_good [OF S g, of us payload] en by (auto simp: world_good_def)
  next
    case (ActDrop s)
    then show ?thesis using session_drop_good [OF S g, of s] en by (auto simp: world_good_def)
  qed (use g in \<open>simp_all add: world_good_def queue_ingress_good next_poll_delay_good udp_recv_poll_good\<close>)
qed

interpretation netstack: transition_invariant "started S" "step S W" "\<lambda>w. engine_laws S W \<longrightarrow> world_good S w"
  for S :: "('i, 's, 't, 'u, 'x) smoltcp_scheme" and W :: wire
proof
  show "engine_laws S W \<longrightarrow> world_good S w" if "started S w" for w
    using that by cases (auto simp: world_good_def engine_laws_def build_good)
  show "engine_laws S W \<longrightarrow> world_good S w'" if "engine_laws S W \<longrightarrow> world_good S w" "step S W a w w'" for w a w'
    using that(2,1) by cases (metis option.inject perform_good)
qed

abbreviation reachable :: "('i, 's, 't, 'u, 'x) smoltcp_scheme \<Rightarrow> wire \<Rightarrow> ('i, 's, 't) world \<Rightarrow> bool" where
  "reachable S W \<equiv> reach (started S) (step S W)"

lemma reachable_good: "engine_laws S W \<Longrightarrow> reachable S W (sh, live) \<Longrightarrow> sh_good S 0 live sh"
  using netstack.reach_inv [of S W "(sh, live)"] by (simp add: world_good_def)

section \<open>The phases of a poll in a reachable state\<close>

definition polled :: "('i, 's, 't, 'u, 'x) smoltcp_scheme \<Rightarrow> instant \<Rightarrow> ('i, 's, 't) shared \<Rightarrow> ('i, 's, 't) shared" where
  "polled S now sh = sh\<lparr>sh_core := poll_slots S now (sh_core sh)\<rparr>"

lemma poll_phases:
  assumes laws: "engine_laws S W" and reach: "reachable S W (sh, live)"
    and pre: "pre_pass S W now (sh, []) = Some (sh1, acc)"
    and poll: "poll_locked S W ord now sh = Some (sh', accepted, out)"
  obtains sh3 where "sh_good S 0 (live @ acc) (polled S now sh1)"
    "same_io (sh_core sh) (sh_core sh1)" "post_spec S now (polled S now sh1) sh3"
    "sh' = sh3\<lparr>sh_core := fst (collect_egress (sh_core sh3))\<rparr>"
    "accepted = acc @ new_streams S ord (sh_core (polled S now sh1))"
    "out = snd (collect_egress (sh_core sh3))" "sh_good S 0 (live @ accepted) sh'"
proof -
  obtain queued where S: "socket_set_laws S" "udp_bind_law S" "poll_laws S" "udp_recv_progress S queued" "wire_laws W"
    using laws by (auto simp: engine_laws_def)
  show thesis
    by (rule poll_locked_phases [OF S reachable_good [OF laws reach], where ord = ord and now = now])
      (use that pre poll in \<open>auto simp: polled_def\<close>)
qed

lemma collect_egress_frame [simp]:
  "manager (fst (collect_egress c)) = manager c"
  "config (fst (collect_egress c)) = config c"
  by (simp_all add: collect_egress_def)

section \<open>The runner's loop as a run of the system\<close>

lemma step_intro:
  "enabled a live \<Longrightarrow> perform S W a (sh, live) = Some (sh', live') \<Longrightarrow> step S W a (sh, live) (sh', live')"
  by (rule step.intros)

lemma drops_run:
  assumes "for_each (session_drop S) ds sh = Some sh'" and "mset live = mset ds + mset rest"
  shows "\<exists>live'. run (step S W) (sh, live) (map ActDrop ds) (sh', live') \<and> mset live' = mset rest"
  using assms
proof (induction ds arbitrary: sh live)
  case Nil
  then show ?case by (auto intro: run_nil)
next
  case (Cons s ds)
  obtain sh1 where one: "session_drop S s sh = Some sh1" "for_each (session_drop S) ds sh1 = Some sh'"
    using Cons.prems(1) by (auto simp: bind_eq_Some_conv)
  have "s \<in># mset live" using Cons.prems(2) by simp
  then have in_live: "s \<in> set live" by simp
  have left: "mset (remove1 s live) = mset ds + mset rest" using Cons.prems(2) by simp
  from Cons.IH [OF one(2) left] obtain live' where
    "run (step S W) (sh1, remove1 s live) (map ActDrop ds) (sh', live')" "mset live' = mset rest" by blast
  moreover have "step S W (ActDrop s) (sh, live) (sh1, remove1 s live)"
    by (rule step_intro) (use in_live one(1) in simp_all)
  ultimately show ?case by (auto intro: run_cons)
qed

lemma forwards_run:
  assumes "channel_law accept_send held"
    and "for_each (forward_session S accept_send) accepted (sh, ch) = Some (sh', ch')"
    and "mset live = mset (ss @ held ch @ accepted)"
  shows "\<exists>as live'. run (step S W) (sh, live) as (sh', live') \<and> mset live' = mset (ss @ held ch')"
  using assms(2,3)
proof (induction accepted arbitrary: sh ch live)
  case Nil
  then show ?case by (auto intro: run_nil)
next
  case (Cons s accepted)
  obtain sh1 ch1 where one: "forward_session S accept_send s (sh, ch) = Some (sh1, ch1)"
    and rest: "for_each (forward_session S accept_send) accepted (sh1, ch1) = Some (sh', ch')"
    using Cons.prems(1) by (auto simp: bind_eq_Some_conv)
  show ?case
  proof (cases "accept_send ch s")
    case None
    then have drop: "session_drop S s sh = Some sh1" "ch1 = ch"
      using one by (auto simp: forward_session_def bind_eq_Some_conv)
    have "s \<in># mset live" using Cons.prems(2) by simp
    then have "s \<in> set live" by simp
    have "mset (remove1 s live) = mset (ss @ held ch1 @ accepted)" using Cons.prems(2) drop(2) by simp
    from Cons.IH [OF rest this] obtain as live' where
      "run (step S W) (sh1, remove1 s live) as (sh', live')" "mset live' = mset (ss @ held ch')" by blast
    moreover have "step S W (ActDrop s) (sh, live) (sh1, remove1 s live)"
      by (rule step_intro) (use \<open>s \<in> set live\<close> drop in simp_all)
    ultimately show ?thesis by (blast intro: run_cons)
  next
    case (Some ch2)
    then have "sh1 = sh" "ch1 = ch2" "held ch2 = held ch @ [s]"
      using one assms(1) by (auto simp: forward_session_def channel_law_def)
    then show ?thesis using Cons.IH [OF rest, of live] Cons.prems(2) by simp
  qed
qed

lemma poll_once_run:
  assumes ch: "channel_law accept_send held"
    and poll: "poll_once S W egress_send accept_send ord now ru = Some ru'"
    and live: "mset live = mset (ss @ held (ru_accept_tx ru) @ scratch_accepted ru)"
  shows "\<exists>as live'. run (step S W) (ru_shared ru, live) as (ru_shared ru', live') \<and>
    mset live' = mset (ss @ held (ru_accept_tx ru') @ scratch_accepted ru')"
proof -
  obtain sh1 sh2 accepted out where
    clear: "for_each (session_drop S) (scratch_accepted ru) (ru_shared ru) = Some sh1"
    and locked: "poll_locked S W ord now sh1 = Some (sh2, accepted, out)"
    using poll by (auto simp: poll_once_def bind_eq_Some_conv)
  obtain ok etx where fwd: "forward_egress egress_send out (ru_egress_tx ru) = (ok, etx)" by fastforce
  obtain live1 where one: "run (step S W) (ru_shared ru, live) (map ActDrop (scratch_accepted ru)) (sh1, live1)"
    "mset live1 = mset (ss @ held (ru_accept_tx ru))"
    using drops_run [OF clear, of live "ss @ held (ru_accept_tx ru)"] live by auto
  have "step S W (ActPoll ord now) (sh1, live1) (sh2, live1 @ accepted)"
    by (rule step_intro) (simp_all add: locked)
  note two = run_append [OF one(1) run_one [where step = "step S W", OF this]]
  show ?thesis
  proof (cases ok)
    case False
    then have "ru_shared ru' = sh2" "ru_accept_tx ru' = ru_accept_tx ru" "scratch_accepted ru' = accepted"
      using poll by (auto simp: poll_once_def clear locked fwd)
    then show ?thesis using two one(2)
      by (intro exI [of _ "map ActDrop (scratch_accepted ru) @ [ActPoll ord now]"] exI [of _ "live1 @ accepted"])
        (simp add: add.assoc)
  next
    case True
    then obtain sh3 ch3 where three: "for_each (forward_session S accept_send) accepted (sh2, ru_accept_tx ru) = Some (sh3, ch3)"
      "ru_shared ru' = sh3" "ru_accept_tx ru' = ch3" "scratch_accepted ru' = []"
      using poll by (auto simp: poll_once_def clear locked fwd bind_eq_Some_conv)
    obtain as live3 where r: "run (step S W) (sh2, live1 @ accepted) as (sh3, live3)" "mset live3 = mset (ss @ held ch3)"
      using forwards_run [OF ch three(1), of "live1 @ accepted" ss W] one(2) by auto
    show ?thesis using run_append [OF two r(1)] r(2) three(2-4) by auto
  qed
qed

lemma ingress_run: "run (step S W) (sh, live) (map ActIngress pkts) (fold queue_ingress pkts sh, live)"
proof (induction pkts arbitrary: sh)
  case (Cons pkt pkts)
  have "step S W (ActIngress pkt) (sh, live) (queue_ingress pkt sh, live)" by (rule step_intro) simp_all
  then show ?case using Cons by (auto intro: run_cons)
qed (simp add: run_nil)

section \<open>Pending entries\<close>

lemma alloc_tcp_other:
  assumes "alloc_tcp S i key c = Some c'" and "k \<noteq> key"
  shows "hm_get (mgr_tcp (manager c')) k = hm_get (mgr_tcp (manager c)) k"
proof -
  obtain granted c1 where r: "reserve_buffer (2 * slot_tcp_buffer_size (slots c ! i)) c = (granted, c1)" by fastforce
  then have "manager c1 = manager c" by (auto dest: reserve_buffer_result)
  then show ?thesis using assms r
    by (auto simp: alloc_tcp_def Let_def split: if_splits prod.splits sum.splits)
qed

lemma alloc_udp_tcp:
  assumes "alloc_udp S i key now sh = Some (s, sh')"
  shows "mgr_tcp (manager (sh_core sh')) = mgr_tcp (manager (sh_core sh))"
proof -
  let ?c = "sh_core sh" and ?need = "udp_per_socket_bytes (config (sh_core sh)) (slot_mtu (slots (sh_core sh) ! i))"
  let ?r = "if hm_get (udp_dst_sockets (manager ?c)) (sk_interface key, sk_dst key) = None
    then reserve_buffer ?need ?c else (True, ?c)"
  obtain granted c1 where r: "?r = (granted, c1)" by fastforce
  then have "manager c1 = manager ?c" by (auto split: if_splits dest: reserve_buffer_result)
  then show ?thesis using assms r unfolding alloc_udp_def Let_def
    by (auto simp: udp_socket_for_def udp_socket_retain_def Let_def split: if_splits option.splits prod.splits)
qed

lemma pre_pass_packet_tcp:
  "pre_pass_packet S W now i pkt (sh, acc) = Some (sh', acc') \<Longrightarrow>
    hm_get (mgr_tcp (manager (sh_core sh))) k = Some e \<Longrightarrow> hm_get (mgr_tcp (manager (sh_core sh'))) k = Some e"
  by (auto simp: pre_pass_packet_def Let_def bind_eq_Some_conv get_tcp_def alloc_udp_tcp
      split: option.splits l4.splits if_splits dest!: alloc_tcp_other [where k = k])

text \<open>What every packet of the pre-pass keeps, the pre-pass keeps, if putting packets back does not matter to it.\<close>

lemma pre_pass_induct:
  assumes pre: "pre_pass S W now (sh, acc) = Some (sh', acc')" and start: "P sh"
    and packet: "\<And>i pkt sh acc sh' acc'. P sh \<Longrightarrow> pre_pass_packet S W now i pkt (sh, acc) = Some (sh', acc') \<Longrightarrow> P sh'"
    and ingress: "\<And>i pkts sh. P sh \<Longrightarrow> P (set_ingress i pkts sh)"
  shows "P sh'"
proof -
  let ?I = "\<lambda>(sh, acc). P sh"
  have packets: "?I s'" if "for_each (pre_pass_packet S W now i) pkts s = Some s'" "?I s" for i pkts s s'
    by (rule for_each_result [OF that(1), where I = ?I]) (use that(2) packet in auto)
  have slot: "?I s'" if "?I s" "pre_pass_slot S W now i s = Some s'" for i s s'
    using that packets [of i] ingress by (fastforce simp: pre_pass_slot_def bind_eq_Some_conv Let_def split: prod.splits)
  have "?I (sh', acc')"
    by (rule for_each_result [where I = ?I and f = "pre_pass_slot S W now"])
      (use pre start slot in \<open>auto simp: pre_pass_def\<close>)
  then show ?thesis by simp
qed

lemma manager_set_ingress [simp]: "manager (sh_core (set_ingress i pkts sh)) = manager (sh_core sh)"
  by (simp add: set_ingress_def Let_def)

lemma pre_pass_tcp:
  assumes "pre_pass S W now (sh, acc) = Some (sh', acc')"
    and "hm_get (mgr_tcp (manager (sh_core sh))) k = Some e"
  shows "hm_get (mgr_tcp (manager (sh_core sh'))) k = Some e"
  by (rule pre_pass_induct [OF assms(1), where P = "\<lambda>sh. hm_get (mgr_tcp (manager (sh_core sh))) k = Some e"])
    (use assms(2) in \<open>auto dest: pre_pass_packet_tcp\<close>)

text \<open>The close a live stream performs, and a send on a live session, leave all but the sockets alone.\<close>

lemma close_live_shape:
  assumes "socket_set_laws S" and "sh_good S debt live sh" and "SessionTcp st \<in> set live"
    and "close_if_open S st sh = Some sh'"
  shows "same_shape S (sh_core sh) (sh_core sh')"
proof (rule tcp_stream_socket [OF assms(2,3)])
  fix slot t
  assume "core_slot (sh_core sh) (ts_interface st) = Some slot" "get_mut_tcp S (sockets slot) (ts_handle st) = Some t"
  from close_if_open_shape [OF assms(1) this] assms(4) show ?thesis by auto
qed

lemma send_live_shape:
  assumes "socket_set_laws S" and "sh_good S debt live sh" and "SessionUdp us \<in> set live"
    and "udp_send_poll S us payload sh = Some (r, sh')"
  shows "same_shape S (sh_core sh) (sh_core sh')"
proof (cases "is_closed (sh_queues sh ! us_queue us)")
  case True
  then show ?thesis using assms(4) by (auto simp: udp_send_poll_def udp_try_send_def)
next
  case False
  obtain slot u where slot: "core_slot (sh_core sh) (us_interface us) = Some slot"
    and u: "get_mut_udp S (sockets slot) (us_socket us) = Some u"
    by (rule udp_session_socket [OF assms(2,3) False])
  show ?thesis
    using assms(4) False same_shape_put_udp [OF assms(1) slot u]
    by (auto simp: udp_send_poll_def udp_try_send_def slot u Let_def split_beta
        split: sum.splits udp_send_error.splits)
qed

lemma perform_shape:
  assumes laws: "engine_laws S W" and good: "world_good S (sh, live)" and en: "enabled a live"
    and perform: "perform S W a (sh, live) = Some (sh', live')"
    and other: "\<And>ord now. a \<noteq> ActPoll ord now" "\<And>s. a \<noteq> ActDrop s"
  shows "same_shape S (sh_core sh) (sh_core sh')"
proof -
  have S: "socket_set_laws S" using laws by (simp add: engine_laws_def)
  have g: "sh_good S 0 live sh" using good by (simp add: world_good_def)
  have stream: "\<exists>slot t. core_slot (sh_core sh) (ts_interface st) = Some slot \<and>
      get_mut_tcp S (sockets slot) (ts_handle st) = Some t" if "SessionTcp st \<in> set live" for st
    by (rule tcp_stream_socket [OF g that]) blast
  show ?thesis
  proof (cases a)
    case (ActRead st wk n)
    then obtain slot t where "core_slot (sh_core sh) (ts_interface st) = Some slot"
      "get_mut_tcp S (sockets slot) (ts_handle st) = Some t" using stream [of st] en by auto
    from tcp_poll_read_shape [OF S this, of wk n] show ?thesis using perform ActRead by auto
  next
    case (ActWrite st wk data)
    then obtain slot t where "core_slot (sh_core sh) (ts_interface st) = Some slot"
      "get_mut_tcp S (sockets slot) (ts_handle st) = Some t" using stream [of st] en by auto
    from tcp_poll_write_shape [OF S this, of wk data] show ?thesis using perform ActWrite by auto
  next
    case (ActShutdown st)
    then show ?thesis using perform en close_live_shape [OF S g, of st]
      by (auto simp: tcp_poll_shutdown_def bind_eq_Some_conv)
  next
    case (ActRecv us)
    then show ?thesis using perform udp_recv_poll_queues [of us sh] by auto
  next
    case (ActSend us payload)
    then show ?thesis using perform en send_live_shape [OF S g, of us payload] by auto
  next
    case (ActDelay now)
    then show ?thesis using perform unfolding next_poll_delay_slots
      by (auto simp: next_poll_delay_slots intro!: same_shape_map_slots)
  qed (use perform queue_ingress_shape other in auto)
qed

lemma poll_keeps_pending:
  assumes laws: "engine_laws S W" and good: "sh_good S 0 live sh"
    and get: "hm_get (mgr_tcp (manager (sh_core sh))) k = Some e" and pend: "te_state e = TcpPending"
    and poll: "poll_locked S W ord now sh = Some (sh', accepted, out)"
  shows "hm_get (mgr_tcp (manager (sh_core sh'))) k \<in> {Some e, Some (e\<lparr>te_state := TcpEstablished\<rparr>)}"
proof -
  obtain queued where S: "socket_set_laws S" "udp_bind_law S" "poll_laws S" "udp_recv_progress S queued" "wire_laws W"
    using laws by (auto simp: engine_laws_def)
  show ?thesis
  proof (rule poll_locked_phases [OF S good, where ord = ord and now = now])
    fix sh1 acc1 sh3
    assume pre: "pre_pass S W now (sh, []) = Some (sh1, acc1)"
      and two: "sh_good S 0 (live @ acc1) (sh1\<lparr>sh_core := poll_slots S now (sh_core sh1)\<rparr>)"
      and post: "post_spec S now (sh1\<lparr>sh_core := poll_slots S now (sh_core sh1)\<rparr>) sh3"
      and eq: "poll_locked S W ord now sh = Some (sh3\<lparr>sh_core := fst (collect_egress (sh_core sh3))\<rparr>,
        acc1 @ new_streams S ord (poll_slots S now (sh_core sh1)), snd (collect_egress (sh_core sh3)))"
    let ?sh2 = "sh1\<lparr>sh_core := poll_slots S now (sh_core sh1)\<rparr>"
    have get2: "hm_get (mgr_tcp (manager (sh_core ?sh2))) k = Some e"
      using pre_pass_tcp [OF pre get] by (simp add: poll_slots_def)
    have "\<not> te_orphaned e" using tcp_wfD(5) [OF goodD(3) [OF two] get2] pend by blast
    then have "hm_get (mgr_tcp (manager (sh_core sh3))) k = Some (next_entry_at S (sh_core ?sh2) k e)"
      using post get2 by (simp add: post_spec_def next_tcp_def)
    moreover have "next_entry_at S (sh_core ?sh2) k e \<in> {e, e\<lparr>te_state := TcpEstablished\<rparr>}"
      using pend by (cases e) (auto simp: next_entry_at_def next_entry_def split: option.split)
    ultimately show ?thesis using eq poll by auto
  qed
qed

lemma perform_keeps_pending:
  assumes laws: "engine_laws S W" and good: "world_good S (sh, live)" and en: "enabled a live"
    and get: "hm_get (mgr_tcp (manager (sh_core sh))) k = Some e" and pend: "te_state e = TcpPending"
    and perform: "perform S W a (sh, live) = Some (sh', live')"
  shows "hm_get (mgr_tcp (manager (sh_core sh'))) k \<in> {Some e, Some (e\<lparr>te_state := TcpEstablished\<rparr>)}"
proof -
  have S: "socket_set_laws S" using laws by (simp add: engine_laws_def)
  have g: "sh_good S 0 live sh" using good by (simp add: world_good_def)
  have other: "ts_key st \<noteq> k" if "SessionTcp st \<in> set live" for st
    using tcp_ownedD(2) [OF goodD(7) [OF g] that] get pend by auto
  consider (poll) ord now where "a = ActPoll ord now" | (drop) s where "a = ActDrop s"
    | (other) "\<And>ord now. a \<noteq> ActPoll ord now" "\<And>s. a \<noteq> ActDrop s" by blast
  then show ?thesis
  proof cases
    case poll
    then show ?thesis using perform poll_keeps_pending [OF laws g get pend, of ord now] by fastforce
  next
    case drop
    show ?thesis
    proof (cases s)
      case (SessionTcp st)
      then have st: "SessionTcp st \<in> set live" using en drop by simp
      from close_if_open_good [OF S g st] other [OF st] show ?thesis
        using perform get drop SessionTcp
        by (auto simp: tcp_drop_def set_orphaned_def update_tcp_entry_def split: if_splits option.splits)
    next
      case (SessionUdp us)
      have "SessionUdp us \<in> set live" using en drop SessionUdp by simp
      from udp_ownedD(1) [OF goodD(8) [OF g] this] udp_unregister_good [OF S g, of "us_key us"] show ?thesis
        using perform get drop SessionUdp by (fastforce simp: udp_drop_def split: option.splits)
    qed
  next
    case other
    from perform_shape [OF laws good en perform other] show ?thesis using get by (simp add: same_shape_def)
  qed
qed

end
