(* ===== verification/Example_Engine.thy ===== *)
theory Example_Engine
  imports System
begin

text \<open>
  A small engine that satisfies the laws the development asks of \<open>smoltcp\<close>, so that the theorems with
  such hypotheses apply somewhere. Its packets have a seven-byte header (version, protocol, source,
  destination, source port, destination port, flags) and its TCP connections are established by the
  first segment, or left half open if that segment carries data. It stands for no code of the repository.
\<close>

section \<open>Packets\<close>

definition demo_wire :: wire where
  "demo_wire =
     \<lparr>ipv4_new_checked = (\<lambda>p. 7 \<le> length p),
      ipv4_repr_parse = (\<lambda>p. Some \<lparr>ipr_src_addr = ucast (p ! 2), ipr_dst_addr = ucast (p ! 3),
        ipr_next_header = (if p ! 1 = 6 then IpProtoTcp else if p ! 1 = 17 then IpProtoUdp
          else IpProtoOther (p ! 1))\<rparr>),
      ipv4_payload = drop 4,
      ipv6_new_checked = (\<lambda>p. False),
      ipv6_repr_parse = (\<lambda>p. None),
      ipv6_payload = (\<lambda>p. p),
      tcp_new_checked = (\<lambda>p. True),
      tcp_repr_parse = (\<lambda>p s d. if p ! 1 = 0 then None else
        Some \<lparr>tr_src_port = ucast (p ! 0), tr_dst_port = ucast (p ! 1),
          tr_control = (if p ! 2 = 2 then CtlSyn else CtlNone), tr_ack_number = None\<rparr>),
      udp_new_checked = (\<lambda>p. True),
      udp_repr_parse = (\<lambda>p s d. if p ! 1 = 0 then None else
        Some \<lparr>ur_src_port = ucast (p ! 0), ur_dst_port = ucast (p ! 1)\<rparr>)\<rparr>"

lemma ucast_u8_zero: "(ucast (x :: u8) :: u16) = 0 \<longleftrightarrow> x = 0"
proof -
  have "(ucast (ucast x :: u16) :: u8) = x" by (rule ucast_up_ucast_id) (simp add: is_up)
  then show ?thesis by (metis ucast_0)
qed

lemma demo_wire_laws: "wire_laws demo_wire"
  by (auto simp: wire_laws_def demo_wire_def ucast_u8_zero split: if_splits)

section \<open>Sockets\<close>

record demo_tcp =
  dt_fsm :: tcp_fsm
  dt_port :: u16
  dt_rx :: bytes
  dt_tx :: bytes

record demo_udp =
  du_bound :: "ip_endpoint option"
  du_rx :: "(bytes \<times> ip_endpoint) list"
  du_tx :: "(bytes \<times> ip_endpoint) list"

type_synonym demo_socket = "(demo_tcp, demo_udp) socket"
type_synonym demo_set = "(socket_handle \<times> demo_socket) list"

definition fresh_handle :: "demo_set \<Rightarrow> socket_handle" where
  "fresh_handle m = Suc (foldr max (map fst m) 0)"

lemma fresh_handle_bound: "h \<in> fst ` set m \<Longrightarrow> h < fresh_handle m"
  by (induction m) (fastforce simp: fresh_handle_def)+

lemma fresh_handle_new: "map_of m (fresh_handle m) = None"
  using fresh_handle_bound [of "fresh_handle m" m] by (auto simp: map_of_eq_None_iff)

text \<open>A packet reaches the sockets that are bound to its destination.\<close>

fun demo_deliver_to :: "ip_endpoint \<Rightarrow> ip_endpoint \<Rightarrow> l4 \<Rightarrow> bytes \<Rightarrow> demo_socket \<Rightarrow> demo_socket" where
  "demo_deliver_to src dst (L4_Tcp syn) data (TcpSocket t) =
     TcpSocket (if dt_port t = ep_port dst
       then (if syn \<and> dt_fsm t = FsmListen
         then t\<lparr>dt_fsm := (if data = [] then FsmEstablished else FsmSynReceived)\<rparr>
         else t\<lparr>dt_rx := dt_rx t @ data\<rparr>)
       else t)"
| "demo_deliver_to src dst L4_Udp data (UdpSocket u) =
     UdpSocket (if du_bound u = Some dst then u\<lparr>du_rx := du_rx u @ [(data, src)]\<rparr> else u)"
| "demo_deliver_to src dst l data s = s"

definition demo_deliver :: "bytes \<Rightarrow> demo_set \<Rightarrow> demo_set" where
  "demo_deliver pkt m =
     (case parse_l4 demo_wire pkt of
        None \<Rightarrow> m
      | Some (src, dst, l) \<Rightarrow> map (\<lambda>(h, s). (h, demo_deliver_to src dst l (drop 7 pkt) s)) m)"

text \<open>A poll delivers the ingress queue and transmits what the UDP sockets have to send.\<close>

definition demo_flush :: "demo_socket \<Rightarrow> bytes list \<times> demo_socket" where
  "demo_flush s = (case s of
      TcpSocket t \<Rightarrow> ([], s)
    | UdpSocket u \<Rightarrow> (map fst (du_tx u), UdpSocket (u\<lparr>du_tx := []\<rparr>)))"

definition demo_poll ::
    "instant \<Rightarrow> ip_cidr list \<Rightarrow> virtual_device \<Rightarrow> demo_set \<Rightarrow> ip_cidr list \<times> virtual_device \<times> demo_set" where
  "demo_poll now i d m =
     (let m = fold demo_deliver (ingress d) m;
          out = concat (map (\<lambda>(h, s). fst (demo_flush s)) m)
      in (i, d\<lparr>ingress := [], egress := egress d @ out\<rparr>, map (\<lambda>(h, s). (h, snd (demo_flush s))) m))"

definition demo :: "(ip_cidr list, demo_set, demo_tcp, demo_udp) smoltcp" where
  "demo =
     \<lparr>instant_sub = (\<lambda>a b. nat \<bar>a - b\<bar>),
      duration_from_std = (\<lambda>d. d),
      duration_into_std = (\<lambda>d. d),
      tcp_new = (\<lambda>rx tx. \<lparr>dt_fsm = FsmClosed, dt_port = 0, dt_rx = [], dt_tx = []\<rparr>),
      tcp_listen = (\<lambda>t ep. if le_port ep = 0 then Inl ListenUnaddressable
        else if dt_fsm t \<noteq> FsmClosed then Inl ListenInvalidState
        else Inr \<lparr>dt_fsm = FsmListen, dt_port = le_port ep, dt_rx = [], dt_tx = []\<rparr>),
      tcp_fsm_of = dt_fsm,
      tcp_is_open = (\<lambda>t. dt_fsm t \<noteq> FsmClosed),
      tcp_close = (\<lambda>t. t\<lparr>dt_fsm := FsmClosed\<rparr>),
      tcp_recv_slice = (\<lambda>t n. if dt_fsm t = FsmClosed then (Inl RecvFinished, t)
        else (Inr (take n (dt_rx t)), t\<lparr>dt_rx := drop n (dt_rx t)\<rparr>)),
      tcp_send_slice = (\<lambda>t data. if dt_fsm t = FsmEstablished
        then (Inr (length data), t\<lparr>dt_tx := dt_tx t @ data\<rparr>) else (Inl SendInvalidState, t)),
      tcp_register_recv_waker = (\<lambda>t w. t),
      tcp_register_send_waker = (\<lambda>t w. t),
      udp_new = (\<lambda>rx tx. \<lparr>du_bound = None, du_rx = [], du_tx = []\<rparr>),
      udp_bind = (\<lambda>u ep. if ep_port ep = 0 then Inl BindUnaddressable
        else if du_bound u \<noteq> None then Inl BindInvalidState else Inr (u\<lparr>du_bound := Some ep\<rparr>)),
      udp_recv = (\<lambda>u. case du_rx u of
          [] \<Rightarrow> (Inl RecvExhausted, u)
        | d # ds \<Rightarrow> (Inr d, u\<lparr>du_rx := ds\<rparr>)),
      udp_send_slice = (\<lambda>u data ep. if length (du_tx u) < 2
        then (Inr (), u\<lparr>du_tx := du_tx u @ [(data, ep)]\<rparr>) else (Inl SendBufferFull, u)),
      ss_new = [],
      ss_add = (\<lambda>m s. (fresh_handle m, m @ [(fresh_handle m, s)])),
      ss_get = map_of,
      ss_put = (\<lambda>m h s. AList.update h s m),
      ss_remove = (\<lambda>m h. AList.delete h m),
      cidr_new = (\<lambda>addr len. Some \<lparr>cidr_addr = addr, cidr_prefix_len = len\<rparr>),
      iface_max_addr_count = 8,
      iface_new = (\<lambda>seed d now. ([], d)),
      iface_set_any_ip = (\<lambda>i b. i),
      iface_ip_addrs = (\<lambda>i. i),
      iface_set_ip_addrs = (\<lambda>i addrs. Some addrs),
      iface_add_default_ipv4_route = (\<lambda>i gw. i),
      iface_add_default_ipv6_route = (\<lambda>i gw. i),
      iface_poll = demo_poll,
      iface_poll_delay = (\<lambda>now i m. (i, if m = [] then None else Some 0))\<rparr>"

lemma demo_socket_set_laws: "socket_set_laws demo"
  by (auto simp: socket_set_laws_def demo_def fresh_handle_new map_add_def split: option.split)

lemma kind_of_deliver [simp]: "kind_of (demo_deliver_to src dst l data s) = kind_of s"
  by (cases "(src, dst, l, data, s)" rule: demo_deliver_to.cases) simp_all

lemma kind_of_flush [simp]: "kind_of (snd (demo_flush s)) = kind_of s"
  by (cases s) (simp_all add: demo_flush_def)

lemma map_of_map_kinds:
  assumes "\<And>s. kind_of (f s) = kind_of s"
  shows "map_option kind_of (map_of (map (\<lambda>(h, s). (h, f s)) m) h) = map_option kind_of (map_of m h)"
  by (induction m) (auto simp: assms)

lemma demo_deliver_kinds:
  "map_option kind_of (map_of (fold demo_deliver pkts m) h) = map_option kind_of (map_of m h)"
proof (induction pkts arbitrary: m)
  case (Cons pkt pkts)
  have "map_option kind_of (map_of (demo_deliver pkt m) h) = map_option kind_of (map_of m h)"
    by (auto simp: demo_deliver_def map_of_map_kinds split: option.split)
  then show ?case using Cons by simp
qed simp

lemma demo_poll_laws: "poll_laws demo"
  unfolding poll_laws_def
  by (auto simp: demo_def demo_poll_def Let_def device_run_drain map_of_map_kinds demo_deliver_kinds)

lemma demo_udp_bind_law: "udp_bind_law demo"
  by (simp add: udp_bind_law_def demo_def)

lemma demo_udp_recv_progress: "udp_recv_progress demo (\<lambda>u. length (du_rx u))"
  by (auto simp: udp_recv_progress_def demo_def split: list.splits)

lemma demo_laws: "engine_laws demo demo_wire"
  unfolding engine_laws_def
  using demo_socket_set_laws demo_poll_laws demo_udp_bind_law demo_udp_recv_progress demo_wire_laws by blast

section \<open>A run\<close>

text \<open>
  A stack with one interface and a budget of 200 bytes; a TCP segment and a UDP datagram arrive and
  are polled.
\<close>

definition demo_config :: netstack_config where
  "demo_config =
     \<lparr>cfg_mtu = 64,
      cfg_tcp_buffer_size = 16,
      cfg_tcp_max_connections = 2,
      cfg_tcp_pool_size = 1,
      cfg_udp_session_timeout = 10,
      cfg_udp_max_sessions = 2,
      cfg_channel_capacity = 4,
      cfg_log_level = LogInfo,
      cfg_udp_buffer_packets = 1,
      cfg_udp_buffer_bytes = 32,
      cfg_max_buffer_bytes = Some 200,
      cfg_mimalloc_purge_delay = None,
      cfg_mimalloc_large_os_pages = False,
      cfg_mimalloc_allow_thp = True\<rparr>"

definition demo_builder :: netstack_builder where
  "demo_builder =
     \<lparr>nb_config = demo_config, nb_interfaces = [(InterfaceId 1, interface_config_new 1 24)]\<rparr>"

definition demo_started :: "(ip_cidr list, demo_set, demo_tcp) shared" where
  "demo_started =
     (case build demo (\<lambda>_. 0) (\<lambda>_. 0) (\<lambda>_. ((), ())) (\<lambda>_. ((), ())) ((), ()) demo_builder of
        Some (ru, _) \<Rightarrow> ru_shared ru
      | None \<Rightarrow> shared_new \<lparr>slots = [], manager = session_manager_default, config = demo_config,
          buffer_bytes = 0\<rparr>)"

definition demo_ord :: iter_order where
  "demo_ord = \<lparr>ord_tcp = (\<lambda>_. 0), ord_udp = (\<lambda>_. 0), ord_dst = (\<lambda>_. 0)\<rparr>"

definition demo_syn :: ingress_packet where
  "demo_syn = \<lparr>ig_interface = InterfaceId 1, ig_data = [69, 6, 1, 2, 40, 80, 2]\<rparr>"

definition demo_datagram :: ingress_packet where
  "demo_datagram = \<lparr>ig_interface = InterfaceId 1, ig_data = [69, 17, 1, 2, 50, 53, 0, 7, 8]\<rparr>"

definition demo_queued :: "(ip_cidr list, demo_set, demo_tcp) shared" where
  "demo_queued = queue_ingress demo_datagram (queue_ingress demo_syn demo_started)"

definition demo_polled :: "(ip_cidr list, demo_set, demo_tcp) world" where
  "demo_polled =
     (case perform demo demo_wire (ActPoll demo_ord 5) (demo_queued, []) of
        Some w \<Rightarrow> w | None \<Rightarrow> (demo_queued, []))"

definition demo_src :: "u16 \<Rightarrow> ip_endpoint" where
  "demo_src port = \<lparr>ep_addr = Ipv4 1, ep_port = port\<rparr>"

definition demo_dst :: "u16 \<Rightarrow> ip_endpoint" where
  "demo_dst port = \<lparr>ep_addr = Ipv4 2, ep_port = port\<rparr>"

definition demo_tcp_key :: session_key where
  "demo_tcp_key = session_key_new (InterfaceId 1) ProtoTcp (demo_src 40) (demo_dst 80)"

definition demo_udp_key :: session_key where
  "demo_udp_key = session_key_new (InterfaceId 1) ProtoUdp (demo_src 50) (demo_dst 53)"

definition demo_stream :: way_tcp_stream where
  "demo_stream = way_tcp_stream_new (InterfaceId 1) demo_tcp_key 1
     (to_socket_addr (demo_src 40)) (to_socket_addr (demo_dst 80))"

definition demo_session :: way_udp_session where
  "demo_session = way_udp_session_new (InterfaceId 1) demo_udp_key 2 0
     (to_socket_addr (demo_src 50)) (to_socket_addr (demo_dst 53))"

lemma demo_builder_ok: "builder_wf demo_builder" "config_ok (nb_config demo_builder)"
  by (simp_all add: builder_wf_def demo_builder_def demo_config_def config_ok_def tcp_cost_def udp_cost_def)

lemma demo_build:
  "\<exists>ru rest. build demo (\<lambda>_. 0) (\<lambda>_. 0) (\<lambda>_. ((), ())) (\<lambda>_. ((), ())) ((), ()) demo_builder = Some (ru, rest) \<and>
    ru_shared ru = demo_started"
proof -
  have "build demo (\<lambda>_. 0) (\<lambda>_. 0) (\<lambda>_. ((), ())) (\<lambda>_. ((), ())) ((), ()) demo_builder \<noteq> None"
    by (simp add: build_def demo_builder_def push_interface_def build_interface_def interface_config_new_def
        interface_config_default_def demo_def push_addr_def Let_def)
  then show ?thesis by (auto simp: demo_started_def)
qed

lemma demo_started_world: "started demo (demo_started, [])"
  using demo_build demo_builder_ok by (metis prod.exhaust started.intros)

lemma demo_step:
  assumes "reachable demo demo_wire (sh, live)" and "enabled a live"
  shows "perform demo demo_wire a (sh, live) = Some w \<Longrightarrow> reachable demo demo_wire w"
    and "perform demo demo_wire a (sh, live) \<noteq> None"
proof -
  show "reachable demo demo_wire w" if "perform demo demo_wire a (sh, live) = Some w"
    using reach_step [OF assms(1) step.intros [OF assms(2) that]] .
  have "world_good demo (sh, live)" using reachable_good [OF demo_laws assms(1)] by (simp add: world_good_def)
  then show "perform demo demo_wire a (sh, live) \<noteq> None" using perform_good [OF demo_laws _ assms(2)] by fastforce
qed

lemma demo_reachable:
  "reachable demo demo_wire (demo_started, [])"
  "reachable demo demo_wire (demo_queued, [])"
  "reachable demo demo_wire demo_polled"
proof -
  show start: "reachable demo demo_wire (demo_started, [])" by (rule reach_initial) (rule demo_started_world)
  have "reachable demo demo_wire (queue_ingress demo_syn demo_started, [])"
    by (rule demo_step(1) [OF start, of "ActIngress demo_syn"]) simp_all
  then show queued: "reachable demo demo_wire (demo_queued, [])"
    unfolding demo_queued_def by (rule demo_step(1) [where a = "ActIngress demo_datagram"]) simp_all
  show "reachable demo demo_wire demo_polled"
    using demo_step [OF queued, of "ActPoll demo_ord 5"] by (auto simp: demo_polled_def split: option.split)
qed

lemma demo_polled_live: "snd demo_polled = [SessionUdp demo_session, SessionTcp demo_stream]"
  by code_simp

lemma demo_polled_tcp:
  "mgr_tcp (manager (sh_core (fst demo_polled))) =
    [(demo_tcp_key, \<lparr>te_handle = 1, te_state = TcpEstablished, te_orphaned = False\<rparr>)]"
  by code_simp

lemma demo_polled_udp:
  "mgr_udp (manager (sh_core (fst demo_polled))) =
    [(demo_udp_key, \<lparr>ue_socket = 2, ue_queue = 0, ue_last_activity = 5\<rparr>)]"
  by code_simp

lemma demo_polled_dst:
  "udp_dst_sockets (manager (sh_core (fst demo_polled))) = [((InterfaceId 1, demo_dst 53), 2, 1)]"
  by code_simp

lemma demo_polled_queues:
  "sh_queues (fst demo_polled) = [\<lparr>q_inner = [[7, 8]], q_notify = 1, q_closed = False\<rparr>]"
  by code_simp

lemma demo_polled_bytes: "buffer_bytes (sh_core (fst demo_polled)) = 160"
  by code_simp

lemma demo_polled_reachable: "reachable demo demo_wire (fst demo_polled, snd demo_polled)"
  using demo_reachable(3) by simp

text \<open>The same poll, stopped before the post-pass.\<close>

definition demo_pre :: "(ip_cidr list, demo_set, demo_tcp) shared \<times> session list" where
  "demo_pre =
     (case pre_pass demo demo_wire 5 (demo_queued, []) of Some r \<Rightarrow> r | None \<Rightarrow> (demo_queued, []))"

lemma demo_pre_pass: "pre_pass demo demo_wire 5 (demo_queued, []) = Some (fst demo_pre, snd demo_pre)"
  using pre_pass_good [OF demo_socket_set_laws demo_udp_bind_law demo_wire_laws, of "[]" "[]" demo_queued 5]
    reachable_good [OF demo_laws demo_reachable(2)] by (auto simp: demo_pre_def)

definition demo_mid :: "(ip_cidr list, demo_set, demo_tcp) shared" where
  "demo_mid = (fst demo_pre)\<lparr>sh_core := poll_slots demo 5 (sh_core (fst demo_pre))\<rparr>"

lemma demo_poll_locked:
  "\<exists>out. poll_locked demo demo_wire demo_ord 5 demo_queued = Some (fst demo_polled, snd demo_polled, out)"
  using demo_step(2) [OF demo_reachable(2), of "ActPoll demo_ord 5"] by (auto simp: demo_polled_def)

lemma demo_mid_tcp:
  "hm_get (mgr_tcp (manager (sh_core demo_mid))) demo_tcp_key =
    Some \<lparr>te_handle = 1, te_state = TcpPending, te_orphaned = False\<rparr>"
  by code_simp

lemma demo_mid_udp:
  "hm_get (mgr_udp (manager (sh_core demo_mid))) demo_udp_key =
    Some \<lparr>ue_socket = 2, ue_queue = 0, ue_last_activity = 5\<rparr>"
  by code_simp

text \<open>A runner on this stack, with channels that keep what is sent.\<close>

definition demo_send :: "'m list \<Rightarrow> 'm \<Rightarrow> 'm list option" where
  "demo_send ch m = Some (ch @ [m])"

lemma demo_channel_law: "channel_law demo_send (\<lambda>ch. ch)"
  by (simp add: channel_law_def demo_send_def)

definition demo_runner ::
    "(ip_cidr list, demo_set, demo_tcp, egress_packet list, session list) runner" where
  "demo_runner = runner_new demo_queued [] []"

text \<open>
  The same stack later: the UDP session times out at 20, and its flow is registered again at 21 while the
  old session still exists.
\<close>

definition demo_after :: "action \<Rightarrow> (ip_cidr list, demo_set, demo_tcp) world \<Rightarrow> (ip_cidr list, demo_set, demo_tcp) world" where
  "demo_after a w = (case perform demo demo_wire a w of Some w' \<Rightarrow> w' | None \<Rightarrow> w)"

definition demo_expired :: "(ip_cidr list, demo_set, demo_tcp) world" where
  "demo_expired = demo_after (ActPoll demo_ord 20) demo_polled"

definition demo_again :: "(ip_cidr list, demo_set, demo_tcp) world" where
  "demo_again = demo_after (ActPoll demo_ord 21) (demo_after (ActIngress demo_datagram) demo_expired)"

lemma demo_after_reachable:
  assumes "reachable demo demo_wire (fst w, snd w)" and "enabled a (snd w)"
  shows "reachable demo demo_wire (fst (demo_after a w), snd (demo_after a w))"
  using demo_step [OF assms] assms(1) by (auto simp: demo_after_def split: option.split)

lemma demo_again_reachable: "reachable demo demo_wire (fst demo_again, snd demo_again)"
  unfolding demo_again_def demo_expired_def
  by (intro demo_after_reachable demo_polled_reachable) simp_all

lemma demo_again_live: "SessionUdp demo_session \<in> set (snd demo_again)"
  by code_simp

lemma demo_again_udp:
  "hm_get (mgr_udp (manager (sh_core (fst demo_again)))) demo_udp_key =
    Some \<lparr>ue_socket = 2, ue_queue = 1, ue_last_activity = 21\<rparr>"
  by code_simp

text \<open>A connection that stays half open.\<close>

definition demo_half_open :: ingress_packet where
  "demo_half_open = \<lparr>ig_interface = InterfaceId 1, ig_data = [69, 6, 1, 2, 41, 80, 2, 9]\<rparr>"

definition demo_half_key :: session_key where
  "demo_half_key = session_key_new (InterfaceId 1) ProtoTcp (demo_src 41) (demo_dst 80)"

definition demo_half :: "(ip_cidr list, demo_set, demo_tcp) world" where
  "demo_half = demo_after (ActPoll demo_ord 5) (demo_after (ActIngress demo_half_open) (demo_started, []))"

lemma demo_half_reachable: "reachable demo demo_wire (fst demo_half, snd demo_half)"
  unfolding demo_half_def by (intro demo_after_reachable) (simp_all add: demo_reachable)

lemma demo_half_tcp:
  "mgr_tcp (manager (sh_core (fst demo_half))) =
    [(demo_half_key, \<lparr>te_handle = 1, te_state = TcpPending, te_orphaned = False\<rparr>)]"
  by code_simp

end
