(* ===== verification/Session_Properties.thy ===== *)
theory Session_Properties
  imports Example_Engine
begin

text \<open>
  What an application sees of its sessions while the stack runs: reading and writing a TCP stream,
  sending and receiving on a UDP session. Each property holds in every reachable state, for every session
  that exists there, and says the outcome of every branch and what the operation leaves alone.
\<close>

section \<open>Helpers\<close>

lemma sock_at_put_socket:
  assumes "socket_set_laws S" and "core_slot c i = Some slot" and "ss_get S (sockets slot) h \<noteq> None"
  shows "sock_at S (put_socket S slot h s c) j h' = (if j = i \<and> h' = h then Some s else sock_at S c j h')"
proof -
  have "slot_id slot = i" using assms(2) by (rule core_slot_Some)
  then show ?thesis
    using assms socket_set_lawsD(4) [OF assms(1,3), of s]
    by (auto simp: sock_at_def put_socket_def core_slot_put_slot)
qed

lemma put_socket_frame [simp]:
  "manager (put_socket S slot h s c) = manager c"
  "buffer_bytes (put_socket S slot h s c) = buffer_bytes c"
  by (simp_all add: put_socket_def)

text \<open>Only the socket \<open>h\<close> of interface \<open>i\<close> has changed, to \<open>s\<close>.\<close>

definition only_socket ::
    "('i, 's, 't, 'u, 'x) smoltcp_scheme \<Rightarrow> interface_id \<Rightarrow> socket_handle \<Rightarrow> ('t, 'u) socket \<Rightarrow>
     ('i, 's, 't) shared \<Rightarrow> ('i, 's, 't) shared \<Rightarrow> bool" where
  "only_socket S i h s sh sh' \<longleftrightarrow>
     (\<forall>j h'. sock_at S (sh_core sh') j h' = (if j = i \<and> h' = h then Some s else sock_at S (sh_core sh) j h')) \<and>
     manager (sh_core sh') = manager (sh_core sh) \<and> buffer_bytes (sh_core sh') = buffer_bytes (sh_core sh) \<and>
     sh_queues sh' = sh_queues sh"

lemma only_socket_notify [simp]: "only_socket S i h s sh (notify_poll sh') = only_socket S i h s sh sh'"
  by (simp add: only_socket_def notify_poll_def)

lemma poll_notify_simps [simp]:
  "poll_notify (put_tcp S slot h t sh) = poll_notify sh"
  "poll_notify (notify_poll sh) = Suc (poll_notify sh)"
  by (simp_all add: put_tcp_def notify_poll_def)

lemma only_socket_put:
  assumes "socket_set_laws S" and "core_slot (sh_core sh) i = Some slot" and "ss_get S (sockets slot) h \<noteq> None"
    and "sh_core sh' = put_socket S slot h s (sh_core sh)" and "sh_queues sh' = sh_queues sh"
  shows "only_socket S i h s sh sh'"
  using assms(4,5) sock_at_put_socket [OF assms(1-3)] by (simp add: only_socket_def)

lemma live_stream_socket:
  assumes "engine_laws S W" and "reachable S W (sh, live)" and "SessionTcp st \<in> set live"
  obtains slot t where "core_slot (sh_core sh) (ts_interface st) = Some slot"
    "get_mut_tcp S (sockets slot) (ts_handle st) = Some t"
    "sock_at S (sh_core sh) (ts_interface st) (ts_handle st) = Some (TcpSocket t)"
    "\<And>t'. only_socket S (ts_interface st) (ts_handle st) (TcpSocket t') sh (put_tcp S slot (ts_handle st) t' sh)"
proof (rule tcp_stream_socket [OF reachable_good [OF assms(1,2)] assms(3)])
  have S: "socket_set_laws S" using assms(1) by (simp add: engine_laws_def)
  fix slot t
  assume slot: "core_slot (sh_core sh) (ts_interface st) = Some slot"
    and t: "get_mut_tcp S (sockets slot) (ts_handle st) = Some t"
  then show thesis
    using that only_socket_put [OF S slot, of "ts_handle st"] by (simp add: sock_at_def get_mut_tcp_Some)
qed

section \<open>TCP streams\<close>

text \<open>
  C26. Reading from a stream: with data in the socket it returns it; at the end of the stream, or when the
  socket is no longer open, it returns no bytes, which is end of file; otherwise it waits, and then it has
  registered the task's waker with the socket and has notified the runner. It never fails with
  \<open>NotConnected\<close>, and nothing but the stream's own socket changes.
\<close>

theorem tcp_read_outcome:
  assumes "engine_laws S W" and "reachable S W (sh, live)" and "SessionTcp st \<in> set live"
  shows "\<exists>t result t'' sh'. sock_at S (sh_core sh) (ts_interface st) (ts_handle st) = Some (TcpSocket t) \<and>
    tcp_poll_read S st wk n sh = Some (result, sh') \<and>
    only_socket S (ts_interface st) (ts_handle st) (TcpSocket t'') sh sh' \<and>
    (result, t'', poll_notify sh') =
      (let (r, t') = tcp_recv_slice S t n;
           wait = (PollPending, tcp_register_recv_waker S t' wk, Suc (poll_notify sh))
       in case r of
            Inr [] \<Rightarrow> wait
          | Inr data \<Rightarrow> (PollReady (Inr data), t', poll_notify sh)
          | Inl RecvFinished \<Rightarrow> (PollReady (Inr []), t', poll_notify sh)
          | Inl RecvInvalidState \<Rightarrow>
              if tcp_is_open S t' then wait else (PollReady (Inr []), t', poll_notify sh))"
proof (rule live_stream_socket [OF assms])
  fix slot t
  assume slot: "core_slot (sh_core sh) (ts_interface st) = Some slot"
    "get_mut_tcp S (sockets slot) (ts_handle st) = Some t"
    "sock_at S (sh_core sh) (ts_interface st) (ts_handle st) = Some (TcpSocket t)"
    and put: "\<And>t'. only_socket S (ts_interface st) (ts_handle st) (TcpSocket t') sh (put_tcp S slot (ts_handle st) t' sh)"
  obtain r t' where r: "tcp_recv_slice S t n = (r, t')" by fastforce
  show ?thesis
    by (rule exI [of _ t], cases r)
      (simp_all add: tcp_poll_read_def slot r put split: tcp_recv_error.split list.split)
qed

theorem tcp_read_outcome_witness:
  "\<exists>sh'. tcp_poll_read demo demo_stream 0 4 (fst demo_polled) = Some (PollPending, sh') \<and>
    poll_notify sh' = Suc (poll_notify (fst demo_polled))"
proof -
  have "sock_at demo (sh_core (fst demo_polled)) (ts_interface demo_stream) (ts_handle demo_stream) =
      Some (TcpSocket \<lparr>dt_fsm = FsmEstablished, dt_port = 80, dt_rx = [], dt_tx = []\<rparr>)" by code_simp
  then show ?thesis
    using tcp_read_outcome [OF demo_laws demo_polled_reachable, of demo_stream 0 4]
    by (auto simp: demo_polled_live demo_def)
qed



section \<open>UDP sessions\<close>

text \<open>
  C24. Sending on an open UDP session reaches the socket shared by the sessions of its destination, with the
  application's own endpoint as the target. The outcome follows the socket: sent and the runner notified;
  no room, then the send waits and the runner is notified; not addressable, then \<open>UdpNotOpen\<close>. It never
  panics, never fails otherwise, and changes nothing but that socket.
\<close>

theorem udp_send_outcome:
  assumes "engine_laws S W" and "reachable S W (sh, live)" and "SessionUdp us \<in> set live"
    and "\<not> is_closed (sh_queues sh ! us_queue us)"
  shows "\<exists>n u result u' sh'.
    hm_get (udp_dst_sockets (manager (sh_core sh))) (us_interface us, sk_dst (us_key us)) = Some (us_socket us, n) \<and>
    sock_at S (sh_core sh) (us_interface us) (us_socket us) = Some (UdpSocket u) \<and>
    udp_send_poll S us payload sh = Some (result, sh') \<and>
    only_socket S (us_interface us) (us_socket us) (UdpSocket u') sh sh' \<and>
    (result, u', poll_notify sh') =
      (case udp_send_slice S u payload (sk_src (us_key us)) of
         (Inr _, u') \<Rightarrow> (PollReady (Inr ()), u', Suc (poll_notify sh))
       | (Inl SendBufferFull, u') \<Rightarrow> (PollPending, u', Suc (poll_notify sh))
       | (Inl SendUnaddressable, u') \<Rightarrow> (PollReady (Inl UdpNotOpen), u', poll_notify sh))"
proof -
  note good = reachable_good [OF assms(1,2)]
  note own = udp_ownedD [OF goodD(8) [OF good]]
  have S: "socket_set_laws S" using assms(1) by (simp add: engine_laws_def)
  obtain e where e: "hm_get (mgr_udp (manager (sh_core sh))) (us_key us) = Some e" "ue_socket e = us_socket us"
    using own(3) [OF assms(3,4)] by blast
  obtain n where n: "hm_get (udp_dst_sockets (manager (sh_core sh))) (us_interface us, sk_dst (us_key us)) =
      Some (us_socket us, n)"
    by (rule udp_unregister_present [OF good e(1)]) (use own(1) [OF assms(3)] e(2) in simp)
  obtain slot u where slot: "core_slot (sh_core sh) (us_interface us) = Some slot"
    and u: "get_mut_udp S (sockets slot) (us_socket us) = Some u"
    by (rule udp_session_socket [OF good assms(3,4)])
  have sock: "sock_at S (sh_core sh) (us_interface us) (us_socket us) = Some (UdpSocket u)"
    using slot u by (simp add: sock_at_def get_mut_udp_Some)
  have put: "only_socket S (us_interface us) (us_socket us) (UdpSocket u') sh
      (sh\<lparr>sh_core := put_socket S slot (us_socket us) (UdpSocket u') (sh_core sh)\<rparr>)" for u'
    by (rule only_socket_put [OF S slot]) (use u in \<open>simp_all add: get_mut_udp_Some\<close>)
  have target: "\<lparr>ep_addr = ep_addr (sk_src (us_key us)), ep_port = ep_port (sk_src (us_key us))\<rparr> = sk_src (us_key us)"
    by simp
  obtain r u' where r: "udp_send_slice S u payload (sk_src (us_key us)) = (r, u')" by fastforce
  show ?thesis
    by (rule exI [of _ n], rule exI [of _ u], cases r)
      (simp_all add: udp_send_poll_def udp_try_send_def assms(4) n sock slot u r put target Let_def
        split: udp_send_error.split)
qed

theorem udp_send_outcome_witness:
  "\<exists>sh'. udp_send_poll demo demo_session [9] (fst demo_polled) = Some (PollReady (Inr ()), sh') \<and>
    sock_at demo (sh_core sh') (InterfaceId 1) 2 =
      Some (UdpSocket \<lparr>du_bound = Some (demo_dst 53), du_rx = [], du_tx = [([9], demo_src 50)]\<rparr>)"
proof -
  have "sock_at demo (sh_core (fst demo_polled)) (us_interface demo_session) (us_socket demo_session) =
      Some (UdpSocket \<lparr>du_bound = Some (demo_dst 53), du_rx = [], du_tx = []\<rparr>)"
    "us_interface demo_session = InterfaceId 1" "us_socket demo_session = 2"
    "sk_src (us_key demo_session) = demo_src 50"
    "\<not> is_closed (sh_queues (fst demo_polled) ! us_queue demo_session)" by code_simp+
  then show ?thesis
    using udp_send_outcome [OF demo_laws demo_polled_reachable, of demo_session "[9]"]
    by (auto simp: demo_polled_live demo_def only_socket_def)
qed

text \<open>The results of polling \<open>recv\<close> a number of times in a row.\<close>

primrec recvs :: "nat \<Rightarrow> way_udp_session \<Rightarrow> ('i, 's, 't) shared \<Rightarrow> bytes option poll list \<times> ('i, 's, 't) shared" where
  "recvs 0 us sh = ([], sh)"
| "recvs (Suc n) us sh =
     (let (r, sh') = udp_recv_poll us sh; (rs, sh'') = recvs n us sh' in (r # rs, sh''))"

lemma udp_recv_poll_Cons:
  assumes "us_queue us < length (sh_queues sh)" and "q_inner (sh_queues sh ! us_queue us) = data # rest"
  shows "\<exists>sh'. udp_recv_poll us sh = (PollReady (Some data), sh') \<and> sh_core sh' = sh_core sh \<and>
    length (sh_queues sh') = length (sh_queues sh) \<and>
    (\<forall>i. i \<noteq> us_queue us \<longrightarrow> sh_queues sh' ! i = sh_queues sh ! i) \<and>
    sh_queues sh' ! us_queue us = (sh_queues sh ! us_queue us)\<lparr>q_inner := rest\<rparr>"
  using assms by (simp add: udp_recv_poll_def udp_queue_pop_def)

text \<open>
  C25. Receiving returns the datagrams of the session's queue one by one, in the order in which they were
  queued, each exactly once, and then waits if the session is open and reports its end if it was closed.
  The rest of the shared state and the queues of the other sessions stay as they are.
\<close>

theorem udp_recv_in_order:
  assumes "us_queue us < length (sh_queues sh)"
  shows "\<exists>sh'. recvs (Suc (length (q_inner (sh_queues sh ! us_queue us)))) us sh =
      (map (\<lambda>data. PollReady (Some data)) (q_inner (sh_queues sh ! us_queue us)) @
        [if is_closed (sh_queues sh ! us_queue us) then PollReady None else PollPending], sh') \<and>
    sh_core sh' = sh_core sh \<and> q_inner (sh_queues sh' ! us_queue us) = [] \<and>
    is_closed (sh_queues sh' ! us_queue us) = is_closed (sh_queues sh ! us_queue us) \<and>
    (\<forall>i. i \<noteq> us_queue us \<longrightarrow> sh_queues sh' ! i = sh_queues sh ! i)"
  using assms
proof (induction "q_inner (sh_queues sh ! us_queue us)" arbitrary: sh)
  case Nil
  then show ?case by (simp add: udp_recv_poll_def udp_queue_pop_def flip: Nil.hyps)
next
  case (Cons data rest)
  obtain sh1 where one: "udp_recv_poll us sh = (PollReady (Some data), sh1)" "sh_core sh1 = sh_core sh"
    "length (sh_queues sh1) = length (sh_queues sh)" "\<forall>i. i \<noteq> us_queue us \<longrightarrow> sh_queues sh1 ! i = sh_queues sh ! i"
    "sh_queues sh1 ! us_queue us = (sh_queues sh ! us_queue us)\<lparr>q_inner := rest\<rparr>"
    using udp_recv_poll_Cons [OF Cons.prems, of data rest] Cons.hyps(2) by auto
  have rest: "q_inner (sh_queues sh1 ! us_queue us) = rest" "us_queue us < length (sh_queues sh1)"
    using one Cons.prems by simp_all
  have closed: "is_closed (sh_queues sh1 ! us_queue us) = is_closed (sh_queues sh ! us_queue us)"
    using one by (simp add: is_closed_def)
  from Cons.hyps(1) [OF rest(1) [symmetric] rest(2)] obtain sh2 where
    "recvs (Suc (length rest)) us sh1 = (map (\<lambda>data. PollReady (Some data)) rest @
      [if is_closed (sh_queues sh1 ! us_queue us) then PollReady None else PollPending], sh2)"
    "sh_core sh2 = sh_core sh1" "q_inner (sh_queues sh2 ! us_queue us) = []"
    "is_closed (sh_queues sh2 ! us_queue us) = is_closed (sh_queues sh1 ! us_queue us)"
    "\<forall>i. i \<noteq> us_queue us \<longrightarrow> sh_queues sh2 ! i = sh_queues sh1 ! i"
    unfolding rest(1) by blast
  with one(1,2,4) closed show ?case
    unfolding Cons.hyps(2) [symmetric] by (simp del: recvs.simps add: recvs.simps(2) [of "Suc (length rest)"])
qed

theorem udp_recv_in_order_witness:
  "fst (recvs 2 demo_session (fst demo_polled)) = [PollReady (Some [7, 8]), PollPending]"
proof -
  have q: "us_queue demo_session = 0" by code_simp
  show ?thesis
    using udp_recv_in_order [of demo_session "fst demo_polled"]
    by (auto simp: q demo_polled_queues is_closed_def numeral_2_eq_2)
qed

section \<open>The registry is well typed\<close>

text \<open>
  C34. The registry never names a socket of the wrong type: in every reachable state a TCP key leads to a TCP
  socket of its interface and a UDP key to a UDP socket and to a queue that exists, so that the typed look-ups
  of the sources, which panic on a missing socket and on one of the other type, succeed on all of them.
\<close>

theorem registry_well_typed:
  assumes "engine_laws S W" and "reachable S W (sh, live)"
  shows "(hm_get (mgr_tcp (manager (sh_core sh))) k = Some te \<longrightarrow> sk_proto k = ProtoTcp \<and>
      (\<exists>slot t. core_slot (sh_core sh) (sk_interface k) = Some slot \<and>
        get_mut_tcp S (sockets slot) (te_handle te) = Some t)) \<and>
    (hm_get (mgr_udp (manager (sh_core sh))) k = Some ue \<longrightarrow> sk_proto k = ProtoUdp \<and>
      ue_queue ue < length (sh_queues sh) \<and>
      (\<exists>slot u. core_slot (sh_core sh) (sk_interface k) = Some slot \<and>
        get_mut_udp S (sockets slot) (ue_socket ue) = Some u))"
proof (intro conjI impI)
  note tcp = goodD(3) [OF reachable_good [OF assms]]
  assume "hm_get (mgr_tcp (manager (sh_core sh))) k = Some te"
  from tcp_wfD(3,4) [OF tcp this] show "sk_proto k = ProtoTcp"
    "\<exists>slot t. core_slot (sh_core sh) (sk_interface k) = Some slot \<and> get_mut_tcp S (sockets slot) (te_handle te) = Some t"
    by (simp_all add: kind_at_TcpKind)
next
  note udp = goodD(4) [OF reachable_good [OF assms]]
  assume get: "hm_get (mgr_udp (manager (sh_core sh))) k = Some ue"
  from udp_wfD(4,5) [OF udp get] show "sk_proto k = ProtoUdp" "ue_queue ue < length (sh_queues sh)" by simp_all
  from udp_wfD(7) [OF udp get] obtain n where
    "hm_get (udp_dst_sockets (manager (sh_core sh))) (sk_interface k, sk_dst k) = Some (ue_socket ue, n)" by auto
  from udp_wfD(9) [OF udp this]
  show "\<exists>slot u. core_slot (sh_core sh) (sk_interface k) = Some slot \<and> get_mut_udp S (sockets slot) (ue_socket ue) = Some u"
    by (simp add: kind_at_UdpKind)
qed

theorem registry_well_typed_witness:
  "(\<exists>slot t. core_slot (sh_core (fst demo_polled)) (InterfaceId 1) = Some slot \<and>
      get_mut_tcp demo (sockets slot) 1 = Some t) \<and>
   (\<exists>slot u. core_slot (sh_core (fst demo_polled)) (InterfaceId 1) = Some slot \<and>
      get_mut_udp demo (sockets slot) 2 = Some u)"
  using registry_well_typed [OF demo_laws demo_polled_reachable, of demo_tcp_key "\<lparr>te_handle = 1, te_state = TcpEstablished, te_orphaned = False\<rparr>"]
    registry_well_typed [OF demo_laws demo_polled_reachable, of demo_udp_key _ "\<lparr>ue_socket = 2, ue_queue = 0, ue_last_activity = 5\<rparr>"]
  by (simp add: demo_polled_tcp demo_polled_udp demo_tcp_key_def demo_udp_key_def session_key_new_def)

end
