(* ===== verification/Boundary_Properties.thy ===== *)
theory Boundary_Properties
  imports Example_Engine
begin

text \<open>
  The edges of the stack: building it, injecting packets, inspecting them, and how long the runner sleeps.
\<close>

section \<open>Allocating\<close>

text \<open>
  A listening socket knows the destination of its flow and not the source: the SYNs of two sources to one
  destination leave the sockets and the budget in the same state, and only the registry tells them apart.
\<close>

lemma alloc_tcp_ignores_source:
  assumes "sk_dst k = sk_dst k'"
  shows "map_option (\<lambda>c. (slots c, buffer_bytes c)) (alloc_tcp S i k c) =
    map_option (\<lambda>c. (slots c, buffer_bytes c)) (alloc_tcp S i k' c)"
  using assms by (auto simp: alloc_tcp_def Let_def split_beta split: sum.split)

section \<open>Building\<close>

lemma push_addrs_total:
  assumes "\<forall>(a, p) \<in> set ps. cidr_new S a p \<noteq> None"
  shows "\<exists>addrs'. for_each (push_addr S) ps addrs = Some addrs'"
  using assms
proof (induction ps arbitrary: addrs)
  case (Cons p ps)
  then obtain a n cidr where "p = (a, n)" "cidr_new S a n = Some cidr" by fastforce
  with Cons show ?case by (auto simp: push_addr_def)
qed simp

text \<open>The addresses of an interface are accepted by the engine.\<close>

definition addrs_ok :: "('i, 's, 't, 'u, 'x) smoltcp_scheme \<Rightarrow> interface_config \<Rightarrow> bool" where
  "addrs_ok S spec \<longleftrightarrow>
     (\<forall>(a, p) \<in> set (ic_ipv4_addrs spec). cidr_new S (Ipv4 a) p \<noteq> None) \<and>
     (\<forall>(a, p) \<in> set (ic_ipv6_addrs spec). cidr_new S (Ipv6 a) p \<noteq> None)"

lemma build_interface_total:
  assumes "addrs_ok S spec" and "\<And>ifc addrs. iface_set_ip_addrs S ifc addrs \<noteq> None"
  shows "\<exists>slot. build_interface S seed now cfg (i, spec) = Some slot"
proof -
  obtain ifc dev where ifc: "iface_new S (seed i) (virtual_device_new (cfg_mtu cfg)) (now i) = (ifc, dev)" by fastforce
  let ?ifc = "iface_set_any_ip S ifc True"
  have "\<forall>(a, p) \<in> set (map (apfst Ipv4) (ic_ipv4_addrs spec)). cidr_new S a p \<noteq> None"
    "\<forall>(a, p) \<in> set (map (apfst Ipv6) (ic_ipv6_addrs spec)). cidr_new S a p \<noteq> None"
    using assms(1) by (auto simp: addrs_ok_def)
  note total = this [THEN push_addrs_total]
  obtain a4 where a4: "for_each (push_addr S) (map (apfst Ipv4) (ic_ipv4_addrs spec)) (iface_ip_addrs S ?ifc) = Some a4"
    using total(1) by blast
  obtain a6 where a6: "for_each (push_addr S) (map (apfst Ipv6) (ic_ipv6_addrs spec)) a4 = Some a6"
    using total(2) by blast
  obtain ifc' where "iface_set_ip_addrs S ?ifc a6 = Some ifc'" using assms(2) by blast
  then show ?thesis by (simp add: build_interface_def ifc a4 a6 Let_def)
qed

lemma push_interfaces_total:
  assumes "\<forall>(i, spec) \<in> set specs. addrs_ok S spec" and "\<And>ifc addrs. iface_set_ip_addrs S ifc addrs \<noteq> None"
  shows "\<exists>c'. for_each (push_interface S seed now cfg) specs c = Some c'"
  using assms(1)
proof (induction specs arbitrary: c)
  case (Cons x xs)
  obtain i spec where x: "x = (i, spec)" by fastforce
  then obtain slot where "build_interface S seed now cfg (i, spec) = Some slot"
    using build_interface_total [OF _ assms(2)] Cons.prems by fastforce
  with Cons show ?case by (simp add: x push_interface_def)
qed simp



text \<open>Registering interfaces one after the other, until the first error.\<close>

primrec add_interfaces ::
    "(interface_id \<times> interface_config) list \<Rightarrow> netstack_builder \<Rightarrow> netstack_error + netstack_builder" where
  "add_interfaces [] b = Inr b"
| "add_interfaces (x # xs) b =
     (case add_interface (fst x) (snd x) b of Inl e \<Rightarrow> Inl e | Inr b' \<Rightarrow> add_interfaces xs b')"

text \<open>
  C30. A sequence of registrations succeeds exactly when every identifier is new, and then the builder holds
  all of them in order and is otherwise unchanged. The first identifier that is already in use ends it; the
  error it is reported with is \<open>InterfaceNotFound\<close>.
\<close>

theorem add_interfaces_result:
  assumes "builder_wf b"
  shows "if distinct (map fst (nb_interfaces b @ xs))
    then add_interfaces xs b = Inr (b\<lparr>nb_interfaces := nb_interfaces b @ xs\<rparr>)
    else \<exists>n < length xs. distinct (map fst (nb_interfaces b @ take n xs)) \<and>
      fst (xs ! n) \<in> fst ` set (nb_interfaces b @ take n xs) \<and>
      add_interfaces xs b = Inl (InterfaceNotFound (fst (xs ! n)))"
  using assms
proof (induction xs arbitrary: b)
  case Nil
  then show ?case by (simp add: builder_wf_def)
next
  case (Cons x xs)
  show ?case
  proof (cases "fst x \<in> fst ` set (nb_interfaces b)")
    case True
    then have "\<not> distinct (map fst (nb_interfaces b @ x # xs))"
      "add_interfaces (x # xs) b = Inl (InterfaceNotFound (fst x))"
      by (auto simp: add_interface_result)
    then show ?thesis using Cons.prems True
      by (simp del: add_interfaces.simps add: builder_wf_def exI [of _ 0])
  next
    case False
    let ?b = "b\<lparr>nb_interfaces := nb_interfaces b @ [x]\<rparr>"
    have add: "add_interfaces (x # xs) b = add_interfaces xs ?b" using False by (simp add: add_interface_result)
    have "builder_wf ?b" using Cons.prems False by (simp add: builder_wf_def)
    note IH = Cons.IH [OF this]
    show ?thesis
    proof (cases "distinct (map fst (nb_interfaces ?b @ xs))")
      case True
      then show ?thesis using IH unfolding add by simp
    next
      case again: False
      then obtain n where "n < length xs" "distinct (map fst (nb_interfaces ?b @ take n xs))"
        "fst (xs ! n) \<in> fst ` set (nb_interfaces ?b @ take n xs)"
        "add_interfaces xs ?b = Inl (InterfaceNotFound (fst (xs ! n)))"
        using IH unfolding if_not_P [OF again] by blast
      moreover have "\<not> distinct (map fst (nb_interfaces b @ x # xs))" using again by simp
      ultimately show ?thesis unfolding add by (simp only: if_False) (intro exI [of _ "Suc n"], simp)
    qed
  qed
qed

theorem add_interfaces_result_witness:
  "add_interfaces [(InterfaceId 2, interface_config_default), (InterfaceId 1, interface_config_default)] demo_builder =
    Inl (InterfaceNotFound (InterfaceId 1))"
proof -
  let ?xs = "[(InterfaceId 2, interface_config_default), (InterfaceId 1, interface_config_default)]"
  have "map fst (nb_interfaces demo_builder) = [InterfaceId 1]" by code_simp
  then show ?thesis
    using add_interfaces_result [OF demo_builder_ok(1), of ?xs]
    by (auto simp: less_Suc_eq image_iff simp flip: set_map)
qed

section \<open>Injecting packets\<close>

text \<open>The interfaces of a stack never change.\<close>

lemma map_slot_id_put_slot [simp]:
  "slot_id s = i \<Longrightarrow> map slot_id (slots (put_slot i s c)) = map slot_id (slots c)"
  by (simp add: put_slot_def map_slot_id_put_first)

lemma map_slot_id_put_socket [simp]: "map slot_id (slots (put_socket S slot h s c)) = map slot_id (slots c)"
  by (simp add: put_socket_def)

lemma slot_ids_cong:
  "same_shape S c c' \<Longrightarrow> map slot_id (slots c') = map slot_id (slots c)"
  "same_io c c' \<Longrightarrow> map slot_id (slots c') = map slot_id (slots c)"
proof -
  have "map (fst \<circ> slot_meta) (slots c') = map (fst \<circ> slot_meta) (slots c)" if "same_shape S c c'"
    unfolding map_map [symmetric] using that by (simp add: same_shape_def)
  then show "same_shape S c c' \<Longrightarrow> map slot_id (slots c') = map slot_id (slots c)"
    by (simp add: slot_meta_def comp_def)
  have "map (fst \<circ> slot_io) (slots c') = map (fst \<circ> slot_io) (slots c)" if "same_io c c'"
    unfolding map_map [symmetric] using that by (simp add: same_io_def)
  then show "same_io c c' \<Longrightarrow> map slot_id (slots c') = map slot_id (slots c)"
    by (simp add: slot_io_def comp_def)
qed

lemma poll_keeps_interfaces:
  assumes "engine_laws S W" and "sh_good S 0 live sh" and "poll_locked S W ord now sh = Some (sh', accepted, out)"
  shows "interface_ids sh' = interface_ids sh"
proof -
  obtain queued where S: "socket_set_laws S" "udp_bind_law S" "poll_laws S" "udp_recv_progress S queued" "wire_laws W"
    using assms(1) by (auto simp: engine_laws_def)
  show ?thesis
  proof (rule poll_locked_phases [OF S assms(2), where ord = ord and now = now])
    fix sh1 acc1 sh3
    assume io: "same_io (sh_core sh) (sh_core sh1)"
      and post: "post_spec S now (sh1\<lparr>sh_core := poll_slots S now (sh_core sh1)\<rparr>) sh3"
      and eq: "poll_locked S W ord now sh = Some (sh3\<lparr>sh_core := fst (collect_egress (sh_core sh3))\<rparr>,
        acc1 @ new_streams S ord (poll_slots S now (sh_core sh1)), snd (collect_egress (sh_core sh3)))"
    have "map slot_id (slots (sh_core sh3)) = map slot_id (slots (poll_slots S now (sh_core sh1)))"
      using post slot_ids_cong(2) by (fastforce simp: post_spec_def)
    also have "\<dots> = map slot_id (slots (sh_core sh))"
      using slot_ids_cong(2) [OF io] by (simp add: poll_slots_def poll_slot_def comp_def split_beta)
    finally show ?thesis using eq assms(3) by (auto simp: interface_ids_def collect_egress_def comp_def)
  qed
qed

lemma udp_drop_keeps_interfaces:
  assumes "udp_drop S us sh = Some sh'"
  shows "interface_ids sh' = interface_ids sh"
proof -
  have "map slot_id (slots c) = map slot_id (slots (sh_core sh))"
    if "udp_unregister S (us_interface us) (us_key us) (sh_core sh, sh_queues sh) = Some (removed, c, qs)" for removed c qs
    using that
    by (auto simp: udp_unregister_def Let_def bind_eq_Some_conv dest: core_slot_Some
        split: option.splits prod.splits if_splits)
  then show ?thesis
    using assms
    by (auto simp: udp_drop_def bind_eq_Some_conv interface_ids_def notify_poll_def release_buffer_def split: option.splits)
qed

lemma perform_keeps_interfaces:
  assumes laws: "engine_laws S W" and good: "world_good S (sh, live)" and en: "enabled a live"
    and perform: "perform S W a (sh, live) = Some (sh', live')"
  shows "interface_ids sh' = interface_ids sh"
proof -
  have S: "socket_set_laws S" using laws by (simp add: engine_laws_def)
  have g: "sh_good S 0 live sh" using good by (simp add: world_good_def)
  have shape: "interface_ids sh2 = interface_ids sh1" if "same_shape S (sh_core sh1) (sh_core sh2)" for sh1 sh2
    using slot_ids_cong(1) [OF that] by (simp add: interface_ids_def)
  consider (poll) ord now where "a = ActPoll ord now" | (drop_tcp) st where "a = ActDrop (SessionTcp st)"
    | (drop_udp) us where "a = ActDrop (SessionUdp us)"
    | (other) "\<And>ord now. a \<noteq> ActPoll ord now" "\<And>s. a \<noteq> ActDrop s" by (metis session.exhaust)
  then show ?thesis
  proof cases
    case poll
    then show ?thesis using perform poll_keeps_interfaces [OF laws g, of ord now] by fastforce
  next
    case drop_tcp
    then show ?thesis using perform en shape [OF close_live_shape [OF S g, of st]]
      by (auto simp: tcp_drop_def set_orphaned_def bind_eq_Some_conv notify_poll_def interface_ids_def split: if_splits)
  next
    case drop_udp
    then show ?thesis using perform udp_drop_keeps_interfaces by auto
  next
    case other
    then show ?thesis by (rule shape [OF perform_shape [OF laws good en perform]])
  qed
qed

lemma run_keeps_interfaces:
  assumes "engine_laws S W" and "run (step S W) w as w'" and "world_good S w"
  shows "interface_ids (fst w') = interface_ids (fst w)"
  using assms(2,3)
proof (induction rule: run.induct)
  case (run_cons a w w1 as w2)
  obtain sh live sh1 live1 where w: "w = (sh, live)" "w1 = (sh1, live1)" by fastforce
  have act: "enabled a live" "perform S W a (sh, live) = Some (sh1, live1)"
    using run_cons.hyps(1) by (auto simp: w elim: stepE)
  have good: "world_good S (sh, live)" using run_cons.prems by (simp add: w)
  have "world_good S w1" using perform_good [OF assms(1) good act(1)] act(2) by (simp add: w)
  from run_cons.IH [OF this] show ?case
    using perform_keeps_interfaces [OF assms(1) good act] by (simp add: w)
qed simp

text \<open>
  C31. Injecting a packet: it is refused with \<open>InterfaceNotFound\<close> exactly when no such interface exists, and
  with \<open>ChannelFull\<close> or \<open>ChannelClosed\<close> when the channel refuses it; then nothing has changed. A packet that is
  accepted is in the channel, the runner is notified, and whenever the runner takes it from the channel, no
  matter what has happened in between, it is queued on that interface's device behind the packets that are
  already there.
\<close>

theorem injected_packet_arrives:
  assumes "engine_laws S W" and "reachable S W (sh, live)"
    and "send_ip_packet try_send i packet (sh, q) = (r, sh1, q')"
  shows "case r of
      Inr _ \<Rightarrow> try_send q \<lparr>ig_interface = i, ig_data = packet\<rparr> = Inr q' \<and> i \<in> set (interface_ids sh) \<and>
        sh1 = notify_poll sh \<and>
        (\<forall>as sh2 live2. run (step S W) (sh1, live) as (sh2, live2) \<longrightarrow>
          (\<exists>slot. core_slot (sh_core sh2) i = Some slot \<and>
            core_slot (sh_core (queue_ingress \<lparr>ig_interface = i, ig_data = packet\<rparr> sh2)) i =
              Some (slot\<lparr>device := (device slot)\<lparr>ingress := ingress (device slot) @ [packet]\<rparr>\<rparr>)))
    | Inl e \<Rightarrow> sh1 = sh \<and> q' = q \<and>
        e = (if i \<notin> set (interface_ids sh) then InterfaceNotFound i
             else if try_send q \<lparr>ig_interface = i, ig_data = packet\<rparr> = Inl TrySendFull then ChannelFull
             else ChannelClosed)"
proof (cases r)
  case (Inl e)
  then show ?thesis
    using assms(3)
    by (auto simp: send_ip_packet_def core_slot_interface_ids Let_def split: if_splits sum.splits try_send_error.splits)
next
  case (Inr u)
  then have sent: "try_send q \<lparr>ig_interface = i, ig_data = packet\<rparr> = Inr q'" "i \<in> set (interface_ids sh)"
    "sh1 = notify_poll sh"
    using assms(3)
    by (auto simp: send_ip_packet_def core_slot_interface_ids Let_def split: if_splits sum.splits try_send_error.splits)
  have good: "world_good S (notify_poll sh, live)"
    using reachable_good [OF assms(1,2)] by (simp add: world_good_def)
  have "\<exists>slot. core_slot (sh_core sh2) i = Some slot \<and>
      core_slot (sh_core (queue_ingress \<lparr>ig_interface = i, ig_data = packet\<rparr> sh2)) i =
        Some (slot\<lparr>device := (device slot)\<lparr>ingress := ingress (device slot) @ [packet]\<rparr>\<rparr>)"
    if "run (step S W) (notify_poll sh, live) as (sh2, live2)" for as sh2 live2
  proof -
    have "interface_ids sh2 = interface_ids sh"
      using run_keeps_interfaces [OF assms(1) that good] by (simp add: interface_ids_def)
    then obtain slot where slot: "core_slot (sh_core sh2) i = Some slot"
      using sent(2) core_slot_interface_ids [of sh2 i] by auto
    then have "slot_id slot = i" by (rule core_slot_Some)
    then show ?thesis by (simp add: queue_ingress_def slot core_slot_put_slot push_ingress_def)
  qed
  then show ?thesis using sent by (simp add: Inr)
qed

theorem injected_packet_arrives_witness:
  "\<exists>slot. core_slot (sh_core demo_started) (InterfaceId 1) = Some slot \<and>
    core_slot (sh_core (queue_ingress demo_syn (notify_poll demo_started))) (InterfaceId 1) =
      Some (slot\<lparr>device := (device slot)\<lparr>ingress := ingress (device slot) @ [ig_data demo_syn]\<rparr>\<rparr>)"
proof -
  let ?send = "\<lambda>q pkt. Inr (q @ [pkt]) :: try_send_error + ingress_packet list"
  have "core_slot (sh_core demo_started) (InterfaceId 1) \<noteq> None" by code_simp
  then have sent: "send_ip_packet ?send (InterfaceId 1) (ig_data demo_syn) (demo_started, []) =
      (Inr (), notify_poll demo_started, [demo_syn])"
    by (simp add: send_ip_packet_def demo_syn_def)
  show ?thesis
    using injected_packet_arrives [OF demo_laws demo_reachable(1) sent]
      run_nil [of "step demo demo_wire" "(notify_poll demo_started, [])"]
    by (fastforce simp: demo_syn_def)
qed

section \<open>Inspecting packets\<close>



section \<open>Sleeping\<close>

lemma min_option_result:
  "case min_option ds of
     None \<Rightarrow> set ds \<subseteq> {None}
   | Some d \<Rightarrow> Some d \<in> set ds \<and> (\<forall>d'. Some d' \<in> set ds \<longrightarrow> d \<le> d')"
proof -
  have elems: "d \<in> set (List.map_filter (\<lambda>d. d) ds) \<longleftrightarrow> Some d \<in> set ds" for d
    by (induction ds) (auto simp: List.map_filter_simps split: option.splits)
  show ?thesis
  proof (cases "List.map_filter (\<lambda>d. d) ds")
    case Nil
    then have "Some d \<notin> set ds" for d using elems [of d] by simp
    then have "set ds \<subseteq> {None}" by (metis insertI1 not_Some_eq subsetI)
    then show ?thesis by (simp add: min_option_def Nil)
  next
    case (Cons x xs)
    have "fold min xs x = Min (set (x # xs))" by (simp add: Min.set_eq_fold [symmetric])
    moreover have "Min (set (x # xs)) \<in> set (x # xs)" by (rule Min_in) simp_all
    moreover have "Min (set (x # xs)) \<le> d" if "d \<in> set (x # xs)" for d using that by simp
    ultimately show ?thesis using elems Cons by (auto simp: min_option_def)
  qed
qed

text \<open>
  C32. The delay the runner computes is the least of the delays its interfaces ask for, and there is none
  exactly when no interface asks for one. Computing it changes nothing but the engine's interfaces.
\<close>

theorem next_poll_delay_least:
  "(case fst (next_poll_delay S now sh) of
      None \<Rightarrow> \<forall>s \<in> set (slots (sh_core sh)). snd (iface_poll_delay S now (iface s) (sockets s)) = None
    | Some d \<Rightarrow>
        (\<exists>s \<in> set (slots (sh_core sh)). \<exists>e. snd (iface_poll_delay S now (iface s) (sockets s)) = Some e \<and>
          d = duration_into_std S e) \<and>
        (\<forall>s \<in> set (slots (sh_core sh)). \<forall>e. snd (iface_poll_delay S now (iface s) (sockets s)) = Some e \<longrightarrow>
          d \<le> duration_into_std S e)) \<and>
   snd (next_poll_delay S now sh) = sh\<lparr>sh_core := (sh_core sh)\<lparr>slots :=
     map (\<lambda>s. s\<lparr>iface := fst (iface_poll_delay S now (iface s) (sockets s))\<rparr>) (slots (sh_core sh))\<rparr>\<rparr>"
proof -
  let ?ds = "map (\<lambda>s. map_option (duration_into_std S) (snd (iface_poll_delay S now (iface s) (sockets s)))) (slots (sh_core sh))"
  have d: "fst (next_poll_delay S now sh) = min_option ?ds" by (simp add: next_poll_delay_def Let_def comp_def)
  have "case min_option ?ds of
      None \<Rightarrow> \<forall>s \<in> set (slots (sh_core sh)). snd (iface_poll_delay S now (iface s) (sockets s)) = None
    | Some d \<Rightarrow>
        (\<exists>s \<in> set (slots (sh_core sh)). \<exists>e. snd (iface_poll_delay S now (iface s) (sockets s)) = Some e \<and>
          d = duration_into_std S e) \<and>
        (\<forall>s \<in> set (slots (sh_core sh)). \<forall>e. snd (iface_poll_delay S now (iface s) (sockets s)) = Some e \<longrightarrow>
          d \<le> duration_into_std S e)"
  proof (cases "min_option ?ds")
    case None
    then show ?thesis using min_option_result [of ?ds] by auto
  next
    case (Some d)
    then have "Some d \<in> set ?ds" and least: "\<And>d'. Some d' \<in> set ?ds \<Longrightarrow> d \<le> d'"
      using min_option_result [of ?ds] by auto
    have "d \<le> duration_into_std S e"
      if "s \<in> set (slots (sh_core sh))" "snd (iface_poll_delay S now (iface s) (sockets s)) = Some e" for s e
      by (rule least) (use that in force)
    moreover have "\<exists>s \<in> set (slots (sh_core sh)). \<exists>e. snd (iface_poll_delay S now (iface s) (sockets s)) = Some e \<and>
        d = duration_into_std S e" using \<open>Some d \<in> set ?ds\<close>
      by (auto simp: map_option_eq_Some dest!: sym [of "Some d"])
    ultimately show ?thesis using Some by simp
  qed
  then show ?thesis unfolding d by (simp add: next_poll_delay_slots)
qed

theorem next_poll_delay_least_witness:
  "fst (next_poll_delay demo 5 demo_started) = None"
proof -
  have "\<forall>s \<in> set (slots (sh_core demo_started)). snd (iface_poll_delay demo 5 (iface s) (sockets s)) = None" by code_simp
  then show ?thesis using next_poll_delay_least [where S = demo and now = 5 and sh = demo_started] by (auto split: option.splits)
qed

text \<open>
  C33. An interface that asks to be polled at once makes the runner sleep for an hour: the least delay is
  then 0, and a delay of 0 is treated like no delay at all. Until a notification or a packet arrives, the
  work the engine has is left waiting.
\<close>

theorem poll_now_sleeps_an_hour:
  assumes "s \<in> set (slots (sh_core sh))" and "snd (iface_poll_delay S now (iface s) (sockets s)) = Some d"
    and "duration_into_std S d = 0"
  shows "sleep_for (fst (next_poll_delay S now sh)) = duration_from_secs 3600"
proof -
  have ds: "Some 0 \<in> set (map (\<lambda>s. map_option (duration_into_std S) (snd (iface_poll_delay S now (iface s) (sockets s))))
      (slots (sh_core sh)))" (is "_ \<in> set ?ds") using assms by force
  have "fst (next_poll_delay S now sh) = min_option ?ds" by (simp add: next_poll_delay_def Let_def comp_def)
  moreover have "min_option ?ds = Some 0" using min_option_result [of ?ds] ds by (cases "min_option ?ds") auto
  ultimately show ?thesis by (simp add: sleep_for_def)
qed

theorem poll_now_sleeps_an_hour_witness:
  "sleep_for (fst (next_poll_delay demo 6 (fst demo_polled))) = duration_from_secs 3600"
proof -
  let ?s = "slots (sh_core (fst demo_polled)) ! 0"
  have "0 < length (slots (sh_core (fst demo_polled)))" and "sockets ?s \<noteq> []" by code_simp+
  then have "?s \<in> set (slots (sh_core (fst demo_polled)))" "snd (iface_poll_delay demo 6 (iface ?s) (sockets ?s)) = Some 0"
    "duration_into_std demo 0 = 0" by (simp_all add: demo_def)
  then show ?thesis by (rule poll_now_sleeps_an_hour)
qed

section \<open>The socket pool\<close>

text \<open>
  The pool of idle TCP sockets of an interface never grows beyond the configured size, and the sizes an
  interface was built with stay the configured ones.
\<close>

lemma tcp_pool_bounded:
  assumes "engine_laws S W" and "reachable S W (sh, live)" and "s \<in> set (slots (sh_core sh))"
  shows "length (tcp_pool s) \<le> unat (cfg_tcp_pool_size (config (sh_core sh))) \<and>
    slot_tcp_pool_max s = cfg_tcp_pool_size (config (sh_core sh)) \<and> slot_mtu s = cfg_mtu (config (sh_core sh)) \<and>
    slot_tcp_buffer_size s = cfg_tcp_buffer_size (config (sh_core sh))"
  using goodD(2) [OF reachable_good [OF assms(1,2)]] assms(3) by (simp add: slots_wf_def)

end
