(* ===== verification/Simulation_Interface.thy ===== *)
theory Simulation_Interface
  imports System
begin

text \<open>
  What it means that a transition system implements another: every step of the first is matched by a finite
  run of the second, along a relation between their states. Invariants of the second then hold of the first.
\<close>

locale forward_simulation =
  fixes initial1 :: "'c \<Rightarrow> bool"
    and step1 :: "'b \<Rightarrow> 'c \<Rightarrow> 'c \<Rightarrow> bool"
    and initial2 :: "'w \<Rightarrow> bool"
    and step2 :: "'a \<Rightarrow> 'w \<Rightarrow> 'w \<Rightarrow> bool"
    and match :: "'c \<Rightarrow> 'w \<Rightarrow> bool"
  assumes initial_match: "initial1 c \<Longrightarrow> \<exists>w. initial2 w \<and> match c w"
    and step_match: "match c w \<Longrightarrow> step1 b c c' \<Longrightarrow> \<exists>as w'. run step2 w as w' \<and> match c' w'"
begin

lemma run_match: "run step1 c bs c' \<Longrightarrow> match c w \<Longrightarrow> \<exists>as w'. run step2 w as w' \<and> match c' w'"
proof (induction arbitrary: w rule: run.induct)
  case (run_nil c)
  then show ?case by (blast intro: run.run_nil)
next
  case (run_cons b c c1 bs c2)
  obtain as w1 where "run step2 w as w1" "match c1 w1" using step_match [OF run_cons.prems run_cons.hyps(1)] by blast
  with run_cons.IH show ?case by (meson run_append)
qed

lemma reach_match:
  assumes "reach initial1 step1 c"
  shows "\<exists>w. reach initial2 step2 w \<and> match c w"
  using assms
proof induction
  case (reach_initial c)
  then show ?case using initial_match by (blast intro: reach.reach_initial)
next
  case (reach_step c b c')
  then obtain w as w' where w: "reach initial2 step2 w" "run step2 w as w'" "match c' w'"
    using step_match by blast
  have "reach initial2 step2 w'" using w(2,1) by (induction rule: run.induct) (auto intro: reach.reach_step)
  then show ?case using w(3) by blast
qed

end

text \<open>Implementations compose: the middle system is hidden.\<close>

lemma forward_simulation_comp:
  assumes one: "forward_simulation initial1 step1 initial2 step2 match1"
    and two: "forward_simulation initial2 step2 initial3 step3 match2"
  shows "forward_simulation initial1 step1 initial3 step3 (match1 OO match2)"
proof (rule forward_simulation.intro)
  show "\<exists>x. initial3 x \<and> (match1 OO match2) c x" if "initial1 c" for c
    using forward_simulation.initial_match [OF one that] forward_simulation.initial_match [OF two] by (meson relcomppI)
  show "\<exists>as x'. run step3 x as x' \<and> (match1 OO match2) c' x'"
    if match: "(match1 OO match2) c x" and step: "step1 b c c'" for c x b c'
  proof -
    obtain w where w: "match1 c w" "match2 w x" using match by blast
    obtain as w' where "run step2 w as w'" "match1 c' w'"
      using forward_simulation.step_match [OF one w(1) step] by blast
    with forward_simulation.run_match [OF two _ w(2)] show ?thesis by (meson relcomppI)
  qed
qed

end
