(* ===== verification/Session_Frame.thy ===== *)
theory Session_Frame
  imports System
begin

text \<open>
  What no operation of the application on its sessions touches: the devices, the count of completed polls, and
  the datagram queues except by taking from them. Only the runner moves packets and datagrams.
\<close>

section \<open>Uses of a session\<close>

fun session_use :: "action \<Rightarrow> bool" where
  "session_use (ActRead st wk n) = True"
| "session_use (ActWrite st wk data) = True"
| "session_use (ActShutdown st) = True"
| "session_use (ActRecv us) = True"
| "session_use (ActSend us payload) = True"
| "session_use (ActDrop s) = True"
| "session_use _ = False"

section \<open>The frame\<close>

text \<open>What may happen to a queue that nothing is added to: datagrams are taken from its front, and it is closed.\<close>

definition taken_from :: "udp_queue \<Rightarrow> udp_queue \<Rightarrow> bool" where
  "taken_from q q' \<longleftrightarrow> (\<exists>n. q_inner q' = drop n (q_inner q)) \<and> (is_closed q \<longrightarrow> is_closed q')"

lemma taken_from_refl [simp]: "taken_from q q"
  by (auto simp: taken_from_def intro: exI [of _ 0])

lemma taken_from_trans: "taken_from q q' \<Longrightarrow> taken_from q' q'' \<Longrightarrow> taken_from q q''"
  unfolding taken_from_def by (metis drop_drop)

lemma taken_from_closed [simp]: "taken_from q (mark_closed q)"
  by (auto simp: taken_from_def intro: exI [of _ 0])

lemma taken_from_pop: "q_inner q = data # rest \<Longrightarrow> taken_from q (q\<lparr>q_inner := rest\<rparr>)"
  by (auto simp: taken_from_def is_closed_def intro: exI [of _ 1])

text \<open>The devices and the completed polls stay, and the datagram queues are only taken from.\<close>

definition frozen :: "('i, 's, 't) shared \<Rightarrow> ('i, 's, 't) shared \<Rightarrow> bool" where
  "frozen sh sh' \<longleftrightarrow>
     map device (slots (sh_core sh')) = map device (slots (sh_core sh)) \<and>
     poll_done sh' = poll_done sh \<and>
     length (sh_queues sh') = length (sh_queues sh) \<and>
     (\<forall>i < length (sh_queues sh). taken_from (sh_queues sh ! i) (sh_queues sh' ! i))"

lemma frozen_refl: "frozen sh sh"
  by (simp add: frozen_def)

lemma frozen_trans: "frozen a b \<Longrightarrow> frozen b c \<Longrightarrow> frozen a c"
  unfolding frozen_def by (metis taken_from_trans)

lemma devices_put_first:
  "find (\<lambda>slot. slot_id slot = i) xs = Some s \<Longrightarrow> device s' = device s \<Longrightarrow>
    map device (put_first i s' xs) = map device xs"
  by (induction xs) (auto split: if_splits)

lemma frozen_slot:
  "core_slot (sh_core sh) i = Some s \<Longrightarrow> device s' = device s \<Longrightarrow>
    frozen sh (sh\<lparr>sh_core := put_slot i s' (sh_core sh)\<rparr>)"
  using frozen_refl [of sh] by (simp add: frozen_def put_slot_def core_slot_def devices_put_first)

lemma frozen_socket:
  "core_slot (sh_core sh) i = Some s \<Longrightarrow> frozen sh (sh\<lparr>sh_core := put_socket S s h sock (sh_core sh)\<rparr>)"
  unfolding put_socket_def by (frule core_slot_Some(2)) (simp add: frozen_slot)

lemma frozen_notify [simp]: "frozen sh (notify_poll sh') = frozen sh sh'"
  by (simp add: frozen_def notify_poll_def)

lemma frozen_queue:
  assumes "taken_from (sh_queues sh ! i) q"
  shows "frozen sh (sh\<lparr>sh_queues := (sh_queues sh)[i := q]\<rparr>)"
proof (cases "i < length (sh_queues sh)")
  case True
  then show ?thesis using assms by (auto simp: frozen_def nth_list_update)
qed (simp add: frozen_refl list_update_beyond)

lemma frozen_core:
  "slots c = slots (sh_core sh') \<Longrightarrow> frozen sh sh' \<Longrightarrow> frozen sh (sh'\<lparr>sh_core := c\<rparr>)"
  by (simp add: frozen_def)

lemma close_if_open_frozen: "close_if_open S st sh = Some sh' \<Longrightarrow> frozen sh sh'"
  by (auto simp: close_if_open_def put_tcp_def bind_eq_Some_conv frozen_refl frozen_socket split: option.splits if_splits)

lemma tcp_poll_read_frozen:
  assumes "tcp_poll_read S st wk n sh = Some (r, sh')"
  shows "frozen sh sh'"
proof (cases "core_slot (sh_core sh) (ts_interface st)")
  case (Some slot)
  then obtain t where t: "get_mut_tcp S (sockets slot) (ts_handle st) = Some t"
    using assms by (auto simp: tcp_poll_read_def bind_eq_Some_conv)
  obtain res t' where res: "tcp_recv_slice S t n = (res, t')" by fastforce
  show ?thesis using assms
    by (cases res) (auto simp: tcp_poll_read_def Some t res put_tcp_def frozen_socket [OF Some]
        split: tcp_recv_error.splits if_splits)
qed (use assms in \<open>auto simp: tcp_poll_read_def frozen_refl\<close>)

lemma tcp_poll_write_frozen:
  assumes "tcp_poll_write S st wk data sh = Some (r, sh')"
  shows "frozen sh sh'"
proof (cases "core_slot (sh_core sh) (ts_interface st)")
  case (Some slot)
  then obtain t where t: "get_mut_tcp S (sockets slot) (ts_handle st) = Some t"
    using assms by (auto simp: tcp_poll_write_def bind_eq_Some_conv)
  obtain res t' where res: "tcp_send_slice S t data = (res, t')" by fastforce
  show ?thesis using assms
    by (cases res) (auto simp: tcp_poll_write_def Some t res put_tcp_def frozen_socket [OF Some]
        split: tcp_send_error.splits if_splits)
qed (use assms in \<open>auto simp: tcp_poll_write_def frozen_refl\<close>)

lemma udp_send_poll_frozen:
  assumes "udp_send_poll S us payload sh = Some (r, sh')"
  shows "frozen sh sh'"
proof -
  let ?target = "\<lparr>ep_addr = ep_addr (sk_src (us_key us)), ep_port = ep_port (sk_src (us_key us))\<rparr>"
  obtain outcome sh1 where tried: "udp_try_send S us payload ?target sh = Some (outcome, sh1)"
    using assms by (auto simp: udp_send_poll_def bind_eq_Some_conv Let_def)
  then have "frozen sh sh1"
    by (auto simp: udp_try_send_def bind_eq_Some_conv frozen_refl frozen_socket Let_def split_beta
        split: if_splits option.splits)
  then show ?thesis using assms tried by (auto simp: udp_send_poll_def Let_def split: send_outcome.splits)
qed

lemma udp_recv_poll_frozen: "frozen sh (snd (udp_recv_poll us sh))"
proof (cases "q_inner (sh_queues sh ! us_queue us)")
  case (Cons data rest)
  then show ?thesis
    by (auto simp: udp_recv_poll_def udp_queue_pop_def intro!: frozen_queue taken_from_pop)
qed (simp add: udp_recv_poll_def udp_queue_pop_def frozen_refl)

lemma udp_unregister_frozen:
  assumes "udp_unregister S i key (sh_core sh, sh_queues sh) = Some (removed, c, qs)"
  shows "frozen sh (sh\<lparr>sh_core := c, sh_queues := qs\<rparr>)"
proof (cases "hm_get (mgr_udp (manager (sh_core sh))) key")
  case None
  then show ?thesis using assms frozen_refl [of sh] by (auto simp: udp_unregister_def)
next
  case (Some e)
  let ?m = "(manager (sh_core sh))\<lparr>mgr_udp := hm_remove key (mgr_udp (manager (sh_core sh)))\<rparr>"
  obtain released m where m: "udp_socket_release (i, sk_dst key) ?m = (released, m)" by fastforce
  let ?qs = "(sh_queues sh)[ue_queue e := mark_closed (sh_queues sh ! ue_queue e)]"
  let ?sh = "sh\<lparr>sh_core := (sh_core sh)\<lparr>manager := m\<rparr>, sh_queues := ?qs\<rparr>"
  have q: "frozen sh (sh\<lparr>sh_queues := ?qs\<rparr>)" by (rule frozen_queue) simp
  have base: "frozen sh ?sh" using q by (simp add: frozen_def)
  have qs: "qs = ?qs" and c: "c = (sh_core sh)\<lparr>manager := m\<rparr> \<or> (\<exists>slot. core_slot (sh_core sh) i = Some slot \<and>
      c = put_slot i (slot\<lparr>sockets := ss_remove S (sockets slot) (ue_socket e)\<rparr>) ((sh_core sh)\<lparr>manager := m\<rparr>))"
    using assms Some m by (auto simp: udp_unregister_def Let_def bind_eq_Some_conv split: if_splits option.splits)
  from c show ?thesis
  proof
    assume "\<exists>slot. core_slot (sh_core sh) i = Some slot \<and>
      c = put_slot i (slot\<lparr>sockets := ss_remove S (sockets slot) (ue_socket e)\<rparr>) ((sh_core sh)\<lparr>manager := m\<rparr>)"
    then obtain slot where "core_slot (sh_core ?sh) i = Some slot"
      "c = put_slot i (slot\<lparr>sockets := ss_remove S (sockets slot) (ue_socket e)\<rparr>) (sh_core ?sh)" by auto
    with frozen_trans [OF base frozen_slot [of ?sh i slot "slot\<lparr>sockets := ss_remove S (sockets slot) (ue_socket e)\<rparr>"]]
    show ?thesis by (simp add: qs frozen_def)
  qed (use base qs in simp)
qed

lemma session_drop_frozen:
  assumes "session_drop S s sh = Some sh'"
  shows "frozen sh sh'"
proof (cases s)
  case (SessionTcp st)
  then show ?thesis using assms close_if_open_frozen [of S st sh]
    by (auto simp: tcp_drop_def Let_def bind_eq_Some_conv frozen_refl set_orphaned_def intro!: frozen_core split: if_splits)
next
  case (SessionUdp us)
  obtain removed c qs where un: "udp_unregister S (us_interface us) (us_key us) (sh_core sh, sh_queues sh) = Some (removed, c, qs)"
    using assms SessionUdp by (auto simp: udp_drop_def bind_eq_Some_conv)
  have "slots (release_buffer b c) = slots c" for b by (simp add: release_buffer_def)
  then show ?thesis using assms SessionUdp udp_unregister_frozen [OF un]
    by (auto simp: udp_drop_def un frozen_def split: option.splits)
qed

lemma session_use_frozen:
  "session_use a \<Longrightarrow> perform S W a (sh, app) = Some (sh', app') \<Longrightarrow> frozen sh sh'"
  using udp_recv_poll_frozen [of sh]
  by (cases a) (auto simp: tcp_poll_shutdown_def bind_eq_Some_conv
      dest: tcp_poll_read_frozen tcp_poll_write_frozen close_if_open_frozen udp_send_poll_frozen session_drop_frozen)

end
