(* ===== verification/Flow_Spec.thy ===== *)
theory Flow_Spec
  imports Simulation_Interface Session_Frame Example_Engine
begin

text \<open>
  What the stack is for, without sockets, buffers, packets and time: a table of TCP connections, each in a
  phase of its life, and a table of UDP flows, each with the queue its datagrams go to. The abstract machine
  says which changes of the two tables an action may make; the running stack implements it.
\<close>

section \<open>The specification\<close>

datatype conn_phase = NoConn | Opening | Serving | Ended | Closing

record flows =
  fl_tcp :: "session_key \<Rightarrow> conn_phase"
  fl_udp :: "session_key \<Rightarrow> queue_id option"
  fl_next :: queue_id

text \<open>
  A poll opens connections, hands them to the application, notices their end and, once the application has
  let go of them, forgets them. It never takes a connection back from the application, and it never gives
  up one that is opening.
\<close>

fun poll_moves :: "conn_phase \<Rightarrow> conn_phase set" where
  "poll_moves NoConn = {NoConn, Opening, Serving}"
| "poll_moves Opening = {Opening, Serving}"
| "poll_moves Serving = {Serving, Ended}"
| "poll_moves Ended = {Ended}"
| "poll_moves Closing = {Closing, NoConn}"

text \<open>A new flow gets a queue that no flow has had before.\<close>

definition udp_moves :: "queue_id \<Rightarrow> queue_id \<Rightarrow> queue_id option \<Rightarrow> queue_id option set" where
  "udp_moves next next' q = {q, None} \<union> (if q = None then Some ` {next..<next'} else {})"

fun flows_step :: "action \<Rightarrow> flows \<Rightarrow> flows \<Rightarrow> bool" where
  "flows_step (ActPoll ord now) f f' \<longleftrightarrow>
     fl_next f \<le> fl_next f' \<and>
     (\<forall>k. fl_tcp f' k \<in> poll_moves (fl_tcp f k)) \<and>
     (\<forall>k. fl_udp f' k \<in> udp_moves (fl_next f) (fl_next f') (fl_udp f k))"
| "flows_step (ActDrop (SessionTcp st)) f f' \<longleftrightarrow>
     fl_tcp f (ts_key st) \<in> {Serving, Ended} \<and> f' = f\<lparr>fl_tcp := (fl_tcp f)(ts_key st := Closing)\<rparr>"
| "flows_step (ActDrop (SessionUdp us)) f f' \<longleftrightarrow> f' = f\<lparr>fl_udp := (fl_udp f)(us_key us := None)\<rparr>"
| "flows_step _ f f' \<longleftrightarrow> f' = f"

definition no_flows :: "flows \<Rightarrow> bool" where
  "no_flows f \<longleftrightarrow> f = \<lparr>fl_tcp = (\<lambda>_. NoConn), fl_udp = (\<lambda>_. None), fl_next = 0\<rparr>"

section \<open>The abstraction\<close>

fun entry_phase :: "tcp_entry option \<Rightarrow> conn_phase" where
  "entry_phase None = NoConn"
| "entry_phase (Some e) =
     (if te_orphaned e then Closing
      else case te_state e of TcpPending \<Rightarrow> Opening | TcpEstablished \<Rightarrow> Serving | TcpClosed \<Rightarrow> Ended)"

definition flows_of :: "('i, 's, 't) shared \<Rightarrow> flows" where
  "flows_of sh =
     \<lparr>fl_tcp = (\<lambda>k. entry_phase (hm_get (mgr_tcp (manager (sh_core sh))) k)),
      fl_udp = (\<lambda>k. map_option ue_queue (hm_get (mgr_udp (manager (sh_core sh))) k)),
      fl_next = length (sh_queues sh)\<rparr>"

section \<open>The pre-pass\<close>

lemma alloc_tcp_entry:
  assumes "alloc_tcp S i key c = Some c'"
  shows "mgr_udp (manager c') = mgr_udp (manager c) \<and>
    (hm_get (mgr_tcp (manager c')) k = hm_get (mgr_tcp (manager c)) k \<or>
     k = key \<and> entry_phase (hm_get (mgr_tcp (manager c')) k) = Opening)"
proof -
  obtain granted c1 where r: "reserve_buffer (2 * slot_tcp_buffer_size (slots c ! i)) c = (granted, c1)" by fastforce
  then have "manager c1 = manager c" by (auto dest: reserve_buffer_result)
  then show ?thesis using assms r
    by (auto simp: alloc_tcp_def Let_def release_buffer_def split: if_splits prod.splits sum.splits)
qed

lemma alloc_udp_entry:
  assumes "alloc_udp S i key now sh = Some (s, sh')"
  shows "length (sh_queues sh) \<le> length (sh_queues sh') \<and>
    (hm_get (mgr_udp (manager (sh_core sh'))) k = hm_get (mgr_udp (manager (sh_core sh))) k \<or>
     k = key \<and> map_option ue_queue (hm_get (mgr_udp (manager (sh_core sh'))) k) = Some (length (sh_queues sh)) \<and>
     length (sh_queues sh) < length (sh_queues sh'))"
proof -
  let ?c = "sh_core sh" and ?need = "udp_per_socket_bytes (config (sh_core sh)) (slot_mtu (slots (sh_core sh) ! i))"
  let ?r = "if hm_get (udp_dst_sockets (manager ?c)) (sk_interface key, sk_dst key) = None
    then reserve_buffer ?need ?c else (True, ?c)"
  obtain granted c1 where r: "?r = (granted, c1)" by fastforce
  then have "manager c1 = manager ?c" by (auto split: if_splits dest: reserve_buffer_result)
  then show ?thesis using assms r unfolding alloc_udp_def Let_def
    by (auto simp: udp_socket_for_def udp_socket_retain_def Let_def split: if_splits option.splits prod.splits)
qed

text \<open>What the pre-pass may have done to the tables since \<open>f\<close>.\<close>

definition opened :: "flows \<Rightarrow> flows \<Rightarrow> bool" where
  "opened f f' \<longleftrightarrow>
     fl_next f \<le> fl_next f' \<and>
     (\<forall>k. fl_tcp f' k = fl_tcp f k \<or> fl_tcp f k = NoConn \<and> fl_tcp f' k = Opening) \<and>
     (\<forall>k. fl_udp f' k = fl_udp f k \<or> fl_udp f k = None \<and> fl_udp f' k \<in> Some ` {fl_next f..<fl_next f'})"


lemma opened_refl: "opened f f"
  by (simp add: opened_def)

lemma openedD:
  assumes "opened f f'"
  shows "fl_next f \<le> fl_next f'"
    and "fl_tcp f' k = fl_tcp f k \<or> fl_tcp f k = NoConn \<and> fl_tcp f' k = Opening"
    and "fl_udp f' k = fl_udp f k \<or> fl_udp f k = None \<and> fl_udp f' k \<in> Some ` {fl_next f..<fl_next f'}"
  using assms by (auto simp: opened_def)

lemma opened_tcp:
  assumes "opened f (flows_of sh)" and "alloc_tcp S i key (sh_core sh) = Some c"
    and "hm_get (mgr_tcp (manager (sh_core sh))) key = None"
  shows "opened f (flows_of (sh\<lparr>sh_core := c\<rparr>))"
proof -
  let ?f' = "flows_of (sh\<lparr>sh_core := c\<rparr>)"
  note alloc = alloc_tcp_entry [OF assms(2)]
  have key: "fl_tcp (flows_of sh) key = NoConn" using assms(3) by (simp add: flows_of_def)
  have "fl_tcp ?f' k = fl_tcp (flows_of sh) k \<or> k = key \<and> fl_tcp ?f' k = Opening" for k
    using alloc [of k] by (auto simp: flows_of_def)
  then have "fl_tcp ?f' k = fl_tcp f k \<or> fl_tcp f k = NoConn \<and> fl_tcp ?f' k = Opening" for k
    using openedD(2) [OF assms(1)] key by metis
  moreover have "fl_udp ?f' = fl_udp (flows_of sh)" "fl_next ?f' = fl_next (flows_of sh)"
    using alloc by (simp_all add: flows_of_def)
  ultimately show ?thesis using assms(1) by (simp add: opened_def)
qed

lemma opened_udp:
  assumes "opened f (flows_of sh)" and "alloc_udp S i key now sh = Some (s, sh')"
    and "hm_get (mgr_udp (manager (sh_core sh))) key = None"
  shows "opened f (flows_of sh')"
proof -
  let ?f = "flows_of sh" and ?f' = "flows_of sh'"
  note alloc = alloc_udp_entry [OF assms(2)]
  have more: "fl_next ?f \<le> fl_next ?f'" using alloc by (simp add: flows_of_def)
  have "fl_udp ?f' k = fl_udp f k \<or> fl_udp f k = None \<and> fl_udp ?f' k \<in> Some ` {fl_next f..<fl_next ?f'}" for k
  proof (cases "fl_udp ?f' k = fl_udp ?f k")
    case True
    then show ?thesis using assms(1) more by (fastforce simp: opened_def)
  next
    case False
    then have "k = key" "fl_udp ?f' k = Some (fl_next ?f)" "fl_next ?f < fl_next ?f'"
      using alloc [of k] by (auto simp: flows_of_def)
    moreover have "fl_udp ?f key = None" using assms(3) by (simp add: flows_of_def)
    ultimately show ?thesis using openedD(1) [OF assms(1)] openedD(3) [OF assms(1), of k] by auto
  qed
  moreover have "fl_tcp ?f' = fl_tcp ?f" using alloc_udp_tcp [OF assms(2)] by (simp add: flows_of_def)
  ultimately show ?thesis using assms(1) more by (auto simp: opened_def)
qed

lemma pre_pass_opens:
  assumes "pre_pass S W now (sh, acc) = Some (sh', acc')"
  shows "opened (flows_of sh) (flows_of sh')"
proof (rule pre_pass_induct [OF assms, where P = "\<lambda>sh'. opened (flows_of sh) (flows_of sh')"])
  show "opened (flows_of sh) (flows_of sh2)"
    if "opened (flows_of sh) (flows_of sh1)" "pre_pass_packet S W now i pkt (sh1, acc1) = Some (sh2, acc2)"
    for i pkt sh1 acc1 sh2 acc2
    using that opened_tcp [OF that(1)] opened_udp [OF that(1)]
    by (auto simp: pre_pass_packet_def Let_def bind_eq_Some_conv get_tcp_def get_udp_def
        split: option.splits l4.splits if_splits)
  show "opened (flows_of sh) (flows_of (set_ingress i pkts sh1))" if "opened (flows_of sh) (flows_of sh1)" for i pkts sh1
    using that by (simp add: flows_of_def set_ingress_def Let_def)
qed (rule opened_refl)

section \<open>The post-pass\<close>

text \<open>The steps of a post-pass that returned.\<close>

lemma post_pass_parts:
  assumes "post_pass S ord now (sh, acc) = Some (sh', acc')"
  obtains c1 reap c2 rel sl routed c3 qs3 c4 qs4 rel4 where
    "tcp_transitions S ord (sh_core sh, acc) = Some (c1, acc', reap)"
    "for_each (tcp_reap_one S) reap (c1, 0) = Some (c2, rel)"
    "fold (route_datagram now) routed (c2\<lparr>slots := sl\<rparr>, sh_queues sh) = (c3, qs3)"
    "for_each (udp_reap_one S) (udp_expired S ord now c3) (c3, qs3, rel) = Some (c4, qs4, rel4)"
    "sh' = sh\<lparr>sh_core := release_buffer rel4 c4, sh_queues := qs4\<rparr>"
proof -
  obtain c1 acc1 reap where t: "tcp_transitions S ord (sh_core sh, acc) = Some (c1, acc1, reap)"
    using assms by (cases "tcp_transitions S ord (sh_core sh, acc)") (auto simp: post_pass_def)
  moreover obtain c2 rel where "for_each (tcp_reap_one S) reap (c1, 0) = Some (c2, rel)"
    using assms t by (cases "for_each (tcp_reap_one S) reap (c1, 0)") (auto simp: post_pass_def)
  moreover obtain sl routed where "drain_slots S ord (manager c2) (slots c2) = Some (sl, routed)"
    using assms calculation by (cases "drain_slots S ord (manager c2) (slots c2)") (auto simp: post_pass_def)
  moreover obtain c3 qs3 where "fold (route_datagram now) routed (c2\<lparr>slots := sl\<rparr>, sh_queues sh) = (c3, qs3)"
    by fastforce
  ultimately show thesis using assms by (auto simp: post_pass_def bind_eq_Some_conv intro: that)
qed

lemma post_pass_queues:
  assumes "post_pass S ord now (sh, acc) = Some (sh', acc')"
  shows "length (sh_queues sh') = length (sh_queues sh)"
proof -
  have route: "length (snd (fold (route_datagram now) routed (c, qs))) = length qs" for routed and c :: "('i, 's, 't) core" and qs
    by (induction routed arbitrary: c qs) (auto simp: route_datagram_def split: option.split)
  have un: "length qs' = length qs" if "udp_unregister S i k (c, qs) = Some (removed, c', qs')" for i k c qs removed c' qs'
    using that by (auto simp: udp_unregister_def Let_def bind_eq_Some_conv split: option.splits prod.splits if_splits)
  have reap: "length (fst (snd s')) = n"
    if "for_each (udp_reap_one S) ks s = Some s'" "length (fst (snd s)) = n" for ks s s' n
    by (rule for_each_result [OF that(1), where I = "\<lambda>s. length (fst (snd s)) = n"])
      (use that(2) un in \<open>fastforce simp: udp_reap_one_def bind_eq_Some_conv\<close>)+
  from assms show ?thesis
  proof (rule post_pass_parts)
    fix c1 reap' c2 rel sl routed c3 qs3 c4 qs4 rel4
    assume "fold (route_datagram now) routed (c2\<lparr>slots := sl\<rparr>, sh_queues sh) = (c3, qs3)"
      and last: "for_each (udp_reap_one S) (udp_expired S ord now c3) (c3, qs3, rel) = Some (c4, qs4, rel4)"
        "sh' = sh\<lparr>sh_core := release_buffer rel4 c4, sh_queues := qs4\<rparr>"
    with route [of routed "c2\<lparr>slots := sl\<rparr>" "sh_queues sh"] have "length qs3 = length (sh_queues sh)" by simp
    with reap [OF last(1)] last(2) show ?thesis by simp
  qed
qed

lemma next_tcp_phase:
  "entry_phase (next_tcp S c k) \<in>
    (case entry_phase (hm_get (mgr_tcp (manager c)) k) of
       NoConn \<Rightarrow> {NoConn} | p \<Rightarrow> poll_moves p)"
proof (cases "hm_get (mgr_tcp (manager c)) k")
  case (Some e)
  then show ?thesis
    by (cases "te_state e") (auto simp: next_tcp_def next_entry_at_def split: option.split)
qed (simp add: next_tcp_def)

lemma next_udp_queue:
  "map_option ue_queue (next_udp S now c k) \<in> {map_option ue_queue (hm_get (mgr_udp (manager c)) k), None}"
  by (auto simp: next_udp_def Let_def split: option.splits)


section \<open>The stack implements the specification\<close>

lemma poll_flows:
  assumes laws: "engine_laws S W" and good: "sh_good S 0 live sh"
    and poll: "poll_locked S W ord now sh = Some (sh', accepted, out)"
  shows "flows_step (ActPoll ord now) (flows_of sh) (flows_of sh')"
proof -
  obtain queued where S: "socket_set_laws S" "udp_bind_law S" "poll_laws S" "udp_recv_progress S queued" "wire_laws W"
    using laws by (auto simp: engine_laws_def)
  obtain sh1 acc1 sh3 where pre: "pre_pass S W now (sh, []) = Some (sh1, acc1)"
    and post: "post_pass S ord now (polled S now sh1, acc1) = Some (sh3, acc1 @ new_streams S ord (poll_slots S now (sh_core sh1)))"
      "post_spec S now (polled S now sh1) sh3"
    and sh': "sh' = sh3\<lparr>sh_core := fst (collect_egress (sh_core sh3))\<rparr>"
    unfolding polled_def by (rule poll_locked_phases [OF S good, where ord = ord and now = now]) (use poll in auto)
  let ?f = "flows_of sh" and ?f1 = "flows_of sh1" and ?f' = "flows_of sh'"
  note opened = openedD [OF pre_pass_opens [OF pre]]
  have "fl_next ?f' = fl_next ?f1" using post_pass_queues [OF post(1)] by (simp add: flows_of_def sh' polled_def)
  moreover have "fl_tcp ?f' k \<in> poll_moves (fl_tcp ?f k)" for k
    using next_tcp_phase [of S "sh_core (polled S now sh1)" k] opened(2) [of k] post(2)
    by (cases "fl_tcp ?f k") (auto simp: post_spec_def flows_of_def sh' polled_def poll_slots_def)
  moreover have udp: "fl_udp ?f' k \<in> {fl_udp ?f1 k, None}" for k
    using next_udp_queue [of S now "sh_core (polled S now sh1)" k] post(2)
    by (simp add: post_spec_def flows_of_def sh' polled_def poll_slots_def)
  moreover have "fl_udp ?f' k \<in> udp_moves (fl_next ?f) (fl_next ?f1) (fl_udp ?f k)" for k
    using udp [of k] opened(3) [of k] by (auto simp: udp_moves_def)
  ultimately show ?thesis using opened(1) by simp
qed

lemma drop_flows:
  assumes laws: "engine_laws S W" and good: "sh_good S 0 live sh" and s: "s \<in> set live"
    and drop: "session_drop S s sh = Some sh'"
  shows "flows_step (ActDrop s) (flows_of sh) (flows_of sh')"
proof (cases s)
  case (SessionTcp st)
  have S: "socket_set_laws S" using laws by (simp add: engine_laws_def)
  have st: "SessionTcp st \<in> set live" using s SessionTcp by simp
  obtain e where e: "hm_get (mgr_tcp (manager (sh_core sh))) (ts_key st) = Some e" "\<not> te_orphaned e" "te_state e \<noteq> TcpPending"
    using tcp_ownedD(2) [OF goodD(7) [OF good] st] by blast
  obtain sh1 where close: "close_if_open S st sh = Some sh1" "manager (sh_core sh1) = manager (sh_core sh)"
    using close_if_open_good [OF S good st] by blast
  have "length (sh_queues sh1) = length (sh_queues sh)"
    using close(1) by (auto simp: close_if_open_def bind_eq_Some_conv split: option.splits if_splits)
  then have "flows_of sh' = (flows_of sh)\<lparr>fl_tcp := (fl_tcp (flows_of sh))(ts_key st := Closing)\<rparr>"
    using drop SessionTcp e close by (auto simp: tcp_drop_def flows_of_def set_orphaned_def update_tcp_entry_def)
  moreover have "fl_tcp (flows_of sh) (ts_key st) \<in> {Serving, Ended}"
    using e by (cases "te_state e") (simp_all add: flows_of_def)
  ultimately show ?thesis by (simp add: SessionTcp)
next
  case (SessionUdp us)
  have S: "socket_set_laws S" using laws by (simp add: engine_laws_def)
  have i: "us_interface us = sk_interface (us_key us)"
    using udp_ownedD(1) [OF goodD(8) [OF good]] s SessionUdp by blast
  obtain removed c qs where un: "udp_unregister S (us_interface us) (us_key us) (sh_core sh, sh_queues sh) = Some (removed, c, qs)"
    "mgr_udp (manager c) = hm_remove (us_key us) (mgr_udp (manager (sh_core sh)))"
    "mgr_tcp (manager c) = mgr_tcp (manager (sh_core sh))"
    using udp_unregister_good [OF S good, of "us_key us"] i by auto
  have "length qs = length (sh_queues sh)"
    using un(1) by (auto simp: udp_unregister_def Let_def bind_eq_Some_conv split: option.splits prod.splits if_splits)
  then have "flows_of sh' = (flows_of sh)\<lparr>fl_udp := (fl_udp (flows_of sh))(us_key us := None)\<rparr>"
    using drop SessionUdp un udp_wfD(1) [OF goodD(4) [OF good]]
    by (auto simp: udp_drop_def flows_of_def release_buffer_def fun_eq_iff split: option.splits)
  then show ?thesis by (simp add: SessionUdp)
qed

lemma perform_queues:
  assumes "perform S W a (sh, live) = Some (sh', live')" and "\<And>ord now. a \<noteq> ActPoll ord now"
  shows "length (sh_queues sh') = length (sh_queues sh)"
proof (cases "session_use a")
  case True
  from session_use_frozen [OF True assms(1)] show ?thesis by (simp add: frozen_def)
next
  case False
  then show ?thesis using assms by (cases a) (auto simp: queue_ingress_queues next_poll_delay_def Let_def)
qed

lemma step_flows:
  assumes laws: "engine_laws S W" and good: "world_good S (sh, live)" and step: "step S W a (sh, live) (sh', live')"
  shows "flows_step a (flows_of sh) (flows_of sh')"
proof -
  have en: "enabled a live" and perform: "perform S W a (sh, live) = Some (sh', live')" using step by (auto elim: stepE)
  have g: "sh_good S 0 live sh" using good by (simp add: world_good_def)
  consider (poll) ord now where "a = ActPoll ord now" | (drop) s where "a = ActDrop s"
    | (other) "\<And>ord now. a \<noteq> ActPoll ord now" "\<And>s. a \<noteq> ActDrop s" by blast
  then show ?thesis
  proof cases
    case poll
    then show ?thesis using perform poll_flows [OF laws g, of ord now] by auto
  next
    case drop
    then show ?thesis using perform en drop_flows [OF laws g, of s] by auto
  next
    case other
    from perform_shape [OF laws good en perform other] perform_queues [OF perform other(1)]
    have "flows_of sh' = flows_of sh" by (simp add: same_shape_def flows_of_def)
    then show ?thesis using other by (cases a) auto
  qed
qed

lemma started_flows: "started S w \<Longrightarrow> no_flows (flows_of (fst w))"
proof (induction rule: started.induct)
  case (1 b seed now ru irx h erx)
  let ?c = "\<lparr>slots = [], manager = session_manager_default, config = nb_config b, buffer_bytes = 0\<rparr>"
  obtain c where c: "for_each (push_interface S seed now (nb_config b)) (nb_interfaces b) ?c = Some c"
    and ru: "ru_shared ru = shared_new c"
    using 1(3) by (auto simp: build_def Let_def bind_eq_Some_conv runner_new_def split_beta)
  have "manager c = session_manager_default" using push_interfaces [OF c] by simp
  then show ?case by (simp add: no_flows_def flows_of_def ru shared_new_def session_manager_default_def)
qed

interpretation flow_table: forward_simulation "started S" "step S W" no_flows flows_step
    "\<lambda>w f. engine_laws S W \<longrightarrow> world_good S w \<and> f = flows_of (fst w)"
  for S :: "('i, 's, 't, 'u, 'x) smoltcp_scheme" and W :: wire
proof
  show "\<exists>f. no_flows f \<and> (engine_laws S W \<longrightarrow> world_good S w \<and> f = flows_of (fst w))" if "started S w" for w
    using started_flows [OF that] netstack.initial_inv [OF that, of W] by blast
  show "\<exists>as f'. run flows_step f as f' \<and> (engine_laws S W \<longrightarrow> world_good S w' \<and> f' = flows_of (fst w'))"
    if match: "engine_laws S W \<longrightarrow> world_good S w \<and> f = flows_of (fst w)" and step: "step S W a w w'" for w f a w'
  proof (cases "engine_laws S W")
    case True
    have "flows_step a (flows_of (fst w)) (flows_of (fst w'))"
      by (rule step_flows [OF True, where live = "snd w" and live' = "snd w'"]) (use match step True in simp_all)
    moreover have "world_good S w'" using netstack.step_inv [OF _ step] match True by blast
    ultimately show ?thesis using match True by (blast intro: run_one [where step = flows_step])
  next
    case False
    then show ?thesis by (blast intro: run_nil)
  qed
qed


text \<open>
  C22. The running stack implements the flow table: each of its steps, in every reachable state, changes the
  phases of the TCP connections and the queues of the UDP flows only as the abstract machine allows. A
  connection goes from opening over serving to its end, only the drop of its stream lets go of it, and
  nothing but the handshake gets a connection out of the opening phase: one that never completes stays.
\<close>

theorem stack_refines_flows:
  assumes "engine_laws S W" and "reachable S W (sh, live)" and "step S W a (sh, live) (sh', live')"
  shows "flows_step a (flows_of sh) (flows_of sh')"
  using step_flows [OF assms(1) _ assms(3)] reachable_good [OF assms(1,2)] by (simp add: world_good_def)

theorem stack_refines_flows_witness:
  "fl_tcp (flows_of (fst demo_polled)) demo_tcp_key \<in> poll_moves (fl_tcp (flows_of demo_queued) demo_tcp_key) \<and>
    fl_tcp (flows_of demo_queued) demo_tcp_key = NoConn \<and> fl_tcp (flows_of (fst demo_polled)) demo_tcp_key = Serving"
proof -
  have "step demo demo_wire (ActPoll demo_ord 5) (demo_queued, []) (fst demo_polled, snd demo_polled)"
    by (rule step_intro) (use demo_poll_locked in auto)
  from stack_refines_flows [OF demo_laws demo_reachable(2) this]
  have "fl_tcp (flows_of (fst demo_polled)) demo_tcp_key \<in> poll_moves (fl_tcp (flows_of demo_queued) demo_tcp_key)" by simp
  moreover have "fl_tcp (flows_of demo_queued) demo_tcp_key = NoConn" by code_simp
  moreover have "fl_tcp (flows_of (fst demo_polled)) demo_tcp_key = Serving"
    by (simp add: flows_of_def demo_polled_tcp)
  ultimately show ?thesis by blast
qed

section \<open>A consequence: queues are not used again\<close>

text \<open>
  On the abstract machine it is plain that a flow never gets a queue back. The stack inherits it: a session
  whose queue has been taken out of the registry never receives a datagram again.
\<close>

lemma udp_moves_old: "q < next \<Longrightarrow> x \<noteq> Some q \<Longrightarrow> Some q \<notin> udp_moves next next' x"
  by (auto simp: udp_moves_def)

lemma flows_queue_gone:
  "run flows_step f as f' \<Longrightarrow> q < fl_next f \<Longrightarrow> fl_udp f k \<noteq> Some q \<Longrightarrow> fl_udp f' k \<noteq> Some q"
proof (induction rule: run.induct)
  case (run_cons a f f1 as f2)
  have "fl_next f \<le> fl_next f1 \<and> fl_udp f1 k \<noteq> Some q"
  proof (cases a)
    case (ActPoll ord now)
    then have "fl_next f \<le> fl_next f1" "fl_udp f1 k \<in> udp_moves (fl_next f) (fl_next f1) (fl_udp f k)"
      using run_cons.hyps(1) by simp_all
    with udp_moves_old [OF run_cons.prems] show ?thesis by metis
  next
    case (ActDrop s)
    then show ?thesis using run_cons.hyps(1) run_cons.prems by (cases s) auto
  qed (use run_cons.hyps(1) run_cons.prems in simp_all)
  then show ?case using run_cons by simp
qed simp

lemma flows_of_view:
  "fl_udp (flows_of sh) k = map_option ue_queue (hm_get (mgr_udp (manager (sh_core sh))) k)"
  "fl_next (flows_of sh) = length (sh_queues sh)"
  by (simp_all add: flows_of_def)

lemma queue_gone:
  assumes "engine_laws S W" and "reachable S W (sh, live)" and "run (step S W) (sh, live) as (sh', live')"
    and "q < length (sh_queues sh)" and "map_option ue_queue (hm_get (mgr_udp (manager (sh_core sh))) k) \<noteq> Some q"
  shows "map_option ue_queue (hm_get (mgr_udp (manager (sh_core sh'))) k) \<noteq> Some q"
proof -
  have "engine_laws S W \<longrightarrow> world_good S (sh, live) \<and> flows_of sh = flows_of (fst (sh, live))"
    using reachable_good [OF assms(1,2)] by (simp add: world_good_def)
  from flow_table.run_match [where W = W, OF assms(3) this] obtain bs f' where r: "run flows_step (flows_of sh) bs f'"
    "engine_laws S W \<longrightarrow> world_good S (sh', live') \<and> f' = flows_of (fst (sh', live'))" by blast
  from r(2) assms(1) have f': "f' = flows_of sh'" by simp
  show ?thesis by (rule flows_queue_gone [OF r(1), of q k, unfolded f' flows_of_view, OF assms(4,5)])
qed

end
