(* ===== verification/Session_End.thy ===== *)
theory Session_End
  imports Flow_Spec
begin

text \<open>
  The end of a UDP session. Once its queue is closed, by the timeout sweep or by a drop of the flow, no
  registered flow delivers to the queue, and the stack never touches it again: the application drains what
  is left, gets nothing more, and every send fails.
\<close>

section \<open>A queue that no flow delivers to\<close>

definition detached :: "queue_id \<Rightarrow> udp_queue \<Rightarrow> ('i, 's, 't) core \<Rightarrow> udp_queue list \<Rightarrow> bool" where
  "detached i q c qs \<longleftrightarrow>
     i < length qs \<and> qs ! i = q \<and> (\<forall>k e. hm_get (mgr_udp (manager c)) k = Some e \<longrightarrow> ue_queue e \<noteq> i)"

lemma detachedD:
  assumes "detached i q c qs"
  shows "i < length qs" and "qs ! i = q" and "hm_get (mgr_udp (manager c)) k = Some e \<Longrightarrow> ue_queue e \<noteq> i"
  using assms by (auto simp: detached_def)

lemma detached_core: "mgr_udp (manager c') = mgr_udp (manager c) \<Longrightarrow> detached i q c' qs = detached i q c qs"
  by (simp add: detached_def)

lemma closed_detached:
  "udp_wf S c qs \<Longrightarrow> i < length qs \<Longrightarrow> is_closed (qs ! i) \<Longrightarrow> detached i (qs ! i) c qs"
  by (auto simp: detached_def dest: udp_wfD(6))

section \<open>The stack leaves it alone\<close>

lemma udp_unregister_detached:
  assumes "detached i q c qs" and "udp_unregister S ifc k (c, qs) = Some (removed, c', qs')"
  shows "detached i q c' qs'"
proof (cases "hm_get (mgr_udp (manager c)) k")
  case (Some e)
  let ?m = "(manager c)\<lparr>mgr_udp := hm_remove k (mgr_udp (manager c))\<rparr>"
  have "mgr_udp (snd (udp_socket_release (ifc, sk_dst k) ?m)) = hm_remove k (mgr_udp (manager c))"
    by (auto simp: udp_socket_release_def Let_def split: option.splits)
  then have "mgr_udp (manager c') = hm_remove k (mgr_udp (manager c))"
    and "qs' = qs[ue_queue e := mark_closed (qs ! ue_queue e)]"
    using assms(2) Some
    by (auto simp: udp_unregister_def Let_def bind_eq_Some_conv put_slot_def split_beta split: option.splits if_splits)
  then show ?thesis using assms(1) Some by (auto simp: detached_def)
qed (use assms in \<open>simp add: udp_unregister_def\<close>)

lemma route_datagram_detached:
  "detached i q (fst s) (snd s) \<Longrightarrow>
    detached i q (fst (route_datagram now kd s)) (snd (route_datagram now kd s))"
  by (auto simp: route_datagram_def detached_def split_beta split: option.split)

lemma fold_route_detached:
  "detached i q (fst s) (snd s) \<Longrightarrow>
    detached i q (fst (fold (route_datagram now) kds s)) (snd (fold (route_datagram now) kds s))"
  by (induction kds arbitrary: s) (simp_all add: route_datagram_detached)

lemma tcp_transitions_udp:
  assumes "tcp_transitions S ord (c, acc) = Some (c', acc', reap)"
  shows "mgr_udp (manager c') = mgr_udp (manager c)"
proof -
  have "mgr_udp (manager (fst (c', acc', reap))) = mgr_udp (manager c)"
    by (rule for_each_result [where f = "tcp_transition S" and I = "\<lambda>s. mgr_udp (manager (fst s)) = mgr_udp (manager c)"])
      (use assms in \<open>auto simp: tcp_transitions_def tcp_transition_def Let_def bind_eq_Some_conv split_beta split: option.splits\<close>)
  then show ?thesis by simp
qed

lemma tcp_reap_udp:
  assumes "for_each (tcp_reap_one S) ks (c, rel) = Some (c', rel')"
  shows "mgr_udp (manager c') = mgr_udp (manager c)"
proof -
  have "mgr_udp (manager (fst (c', rel'))) = mgr_udp (manager c)"
    by (rule for_each_result [OF assms, where I = "\<lambda>s. mgr_udp (manager (fst s)) = mgr_udp (manager c)"])
      (auto simp: tcp_reap_one_def put_slot_def Let_def bind_eq_Some_conv split: option.splits)
  then show ?thesis by simp
qed

lemma udp_reap_detached:
  assumes "for_each (udp_reap_one S) ks (c, qs, rel) = Some (c', qs', rel')" and "detached i q c qs"
  shows "detached i q c' qs'"
proof -
  have "case (c', qs', rel') of (c', qs', rel') \<Rightarrow> detached i q c' qs'"
    by (rule for_each_result [OF assms(1), where I = "\<lambda>(c, qs, rel). detached i q c qs"])
      (use assms(2) in \<open>auto simp: udp_reap_one_def bind_eq_Some_conv intro: udp_unregister_detached\<close>)
  then show ?thesis by simp
qed

lemma post_pass_detached:
  assumes "detached i q (sh_core sh) (sh_queues sh)" and "post_pass S ord now (sh, acc) = Some (sh', acc')"
  shows "detached i q (sh_core sh') (sh_queues sh')"
  using assms(2)
proof (rule post_pass_parts)
  fix c1 reap c2 rel sl routed c3 qs3 c4 qs4 rel4
  assume tcp: "tcp_transitions S ord (sh_core sh, acc) = Some (c1, acc', reap)"
      "for_each (tcp_reap_one S) reap (c1, 0) = Some (c2, rel)"
    and route: "fold (route_datagram now) routed (c2\<lparr>slots := sl\<rparr>, sh_queues sh) = (c3, qs3)"
    and udp: "for_each (udp_reap_one S) (udp_expired S ord now c3) (c3, qs3, rel) = Some (c4, qs4, rel4)"
      "sh' = sh\<lparr>sh_core := release_buffer rel4 c4, sh_queues := qs4\<rparr>"
  have "mgr_udp (manager (c2\<lparr>slots := sl\<rparr>)) = mgr_udp (manager (sh_core sh))"
    using tcp_transitions_udp [OF tcp(1)] tcp_reap_udp [OF tcp(2)] by simp
  then have "detached i q (c2\<lparr>slots := sl\<rparr>) (sh_queues sh)" using assms(1) detached_core by blast
  with fold_route_detached [of i q "(c2\<lparr>slots := sl\<rparr>, sh_queues sh)" now routed] route
  have "detached i q c3 qs3" by simp
  from udp_reap_detached [OF udp(1) this] show ?thesis
    by (simp add: udp(2) release_buffer_def detached_def)
qed

lemma alloc_udp_detached:
  assumes "detached i q (sh_core sh) (sh_queues sh)" and "alloc_udp S j key now sh = Some (s, sh')"
  shows "detached i q (sh_core sh') (sh_queues sh')"
proof -
  note entry = alloc_udp_entry [OF assms(2)]
  have "\<exists>new. sh_queues sh' = sh_queues sh @ new"
    using assms(2) by (auto simp: alloc_udp_def Let_def split: if_splits prod.splits option.splits)
  moreover have "ue_queue e \<noteq> i" if "hm_get (mgr_udp (manager (sh_core sh'))) k = Some e" for k e
    using entry [of k] that detachedD [OF assms(1)] by (metis less_irrefl option.inject option.simps(9))
  ultimately show ?thesis using assms(1) by (auto simp: detached_def nth_append)
qed

lemma pre_pass_detached:
  assumes "detached i q (sh_core sh) (sh_queues sh)" and "pre_pass S W now (sh, acc) = Some (sh', acc')"
  shows "detached i q (sh_core sh') (sh_queues sh')"
proof (rule pre_pass_induct [OF assms(2), where P = "\<lambda>sh. detached i q (sh_core sh) (sh_queues sh)"])
  show "detached i q (sh_core sh2) (sh_queues sh2)"
    if "detached i q (sh_core sh1) (sh_queues sh1)" "pre_pass_packet S W now j pkt (sh1, acc1) = Some (sh2, acc2)"
    for j pkt sh1 acc1 sh2 acc2
    using that alloc_udp_detached [OF that(1)] iffD2 [OF detached_core [OF conjunct1 [OF alloc_tcp_entry]] that(1)]
    by (auto simp: pre_pass_packet_def Let_def bind_eq_Some_conv split: option.splits l4.splits if_splits)
qed (use assms(1) in \<open>simp_all add: detached_def set_ingress_def Let_def\<close>)

lemma poll_detached:
  assumes "detached i q (sh_core sh) (sh_queues sh)" and "poll_locked S W ord now sh = Some (sh', accepted, out)"
  shows "detached i q (sh_core sh') (sh_queues sh')"
proof -
  obtain sh1 acc1 sh2 where pre: "pre_pass S W now (sh, []) = Some (sh1, acc1)"
    and post: "post_pass S ord now (sh1\<lparr>sh_core := poll_slots S now (sh_core sh1)\<rparr>, acc1) = Some (sh2, accepted)"
    and sh': "sh' = sh2\<lparr>sh_core := fst (collect_egress (sh_core sh2))\<rparr>"
    using assms(2) by (auto simp: poll_locked_def Let_def bind_eq_Some_conv split_beta)
  have "detached i q (poll_slots S now (sh_core sh1)) (sh_queues sh1)"
    using pre_pass_detached [OF assms(1) pre] by (simp add: detached_def poll_slots_def)
  then have "detached i q (sh_core sh2) (sh_queues sh2)" by (intro post_pass_detached [OF _ post]) simp
  then show ?thesis by (simp add: sh' detached_def collect_egress_def)
qed

section \<open>Along a run\<close>

lemma step_detached:
  assumes laws: "engine_laws S W" and good: "world_good S (sh, live)"
    and step: "step S W a (sh, live) (sh', live')" and det: "detached i q (sh_core sh) (sh_queues sh)"
  shows "\<exists>q'. taken_from q q' \<and> detached i q' (sh_core sh') (sh_queues sh')"
proof -
  have perform: "perform S W a (sh, live) = Some (sh', live')" using step by (auto elim: stepE)
  show ?thesis
  proof (cases "\<exists>ord now. a = ActPoll ord now")
    case True
    then have "detached i q (sh_core sh') (sh_queues sh')" using perform det by (auto intro: poll_detached)
    then show ?thesis using taken_from_refl by blast
  next
    case False
    then have "fl_udp (flows_of sh') k \<in> {fl_udp (flows_of sh) k, None}" for k
      using step_flows [OF laws good step] by (cases "(a, flows_of sh, flows_of sh')" rule: flows_step.cases) auto
    then have "map_option ue_queue (hm_get (mgr_udp (manager (sh_core sh'))) k) \<in>
        {map_option ue_queue (hm_get (mgr_udp (manager (sh_core sh))) k), None}" for k by (simp add: flows_of_def)
    then have gone: "ue_queue e \<noteq> i" if "hm_get (mgr_udp (manager (sh_core sh'))) k = Some e" for k e
      using that detachedD(3) [OF det] by (fastforce simp: map_option_case split: option.splits)
    have "length (sh_queues sh') = length (sh_queues sh) \<and>
        (\<forall>i < length (sh_queues sh). taken_from (sh_queues sh ! i) (sh_queues sh' ! i))"
    proof (cases "session_use a")
      case True
      from session_use_frozen [OF True perform] show ?thesis by (simp add: frozen_def)
    next
      case other: False
      then have "sh_queues sh' = sh_queues sh"
        using perform False by (cases a) (auto simp: queue_ingress_queues next_poll_delay_def Let_def)
      then show ?thesis by simp
    qed
    then show ?thesis using det gone by (auto simp: detached_def)
  qed
qed

lemma run_detached:
  assumes laws: "engine_laws S W" and "run (step S W) w as w'"
    and "world_good S w" and "detached i q (sh_core (fst w)) (sh_queues (fst w))"
  shows "\<exists>q'. taken_from q q' \<and> detached i q' (sh_core (fst w')) (sh_queues (fst w'))"
  using assms(2-4)
proof (induction arbitrary: q rule: run.induct)
  case (run_cons a w w1 as w2)
  from step_detached [OF laws, of "fst w" "snd w" a "fst w1" "snd w1" i q] run_cons.hyps(1) run_cons.prems
  obtain q1 where q1: "taken_from q q1" "detached i q1 (sh_core (fst w1)) (sh_queues (fst w1))" by auto
  have "world_good S w1" using netstack.step_inv [OF _ run_cons.hyps(1)] run_cons.prems(1) laws by blast
  from run_cons.IH [OF this q1(2)] q1(1) show ?case by (blast intro: taken_from_trans)
qed (use taken_from_refl in blast)

text \<open>
  C16. A session that has ended stays silent: once the queue of a live UDP session is closed, whatever the
  stack and the application do afterwards, and even when a new session is opened for the same flow, the
  queue stays closed, no datagram is ever added to it, so what the application receives are the
  datagrams that were there, and every send on the session fails with \<open>UdpNotOpen\<close> and changes nothing.
\<close>

theorem ended_session_silent:
  assumes "engine_laws S W" and "reachable S W (sh, live)" and "SessionUdp us \<in> set live"
    and "is_closed (sh_queues sh ! us_queue us)" and "run (step S W) (sh, live) as (sh', live')"
  shows "is_closed (sh_queues sh' ! us_queue us) \<and>
    (\<exists>n. q_inner (sh_queues sh' ! us_queue us) = drop n (q_inner (sh_queues sh ! us_queue us))) \<and>
    udp_send_poll S us payload sh' = Some (PollReady (Inl UdpNotOpen), sh')"
proof -
  have good: "world_good S (sh, live)" using reachable_good [OF assms(1,2)] by (simp add: world_good_def)
  then have g: "sh_good S 0 live sh" by (simp add: world_good_def)
  have "us_queue us < length (sh_queues sh)" using udp_ownedD(2) [OF goodD(8) [OF g] assms(3)] by simp
  from closed_detached [OF goodD(4) [OF g] this assms(4)]
  obtain q' where "taken_from (sh_queues sh ! us_queue us) q'" "sh_queues sh' ! us_queue us = q'"
    using run_detached [OF assms(1,5) good] by (fastforce dest: detachedD(2))
  then show ?thesis using assms(4) by (simp add: taken_from_def udp_send_poll_def udp_try_send_def)
qed

lemma demo_after_step:
  assumes "reachable demo demo_wire (fst w, snd w)" and "enabled a (snd w)"
  shows "step demo demo_wire a (fst w, snd w) (fst (demo_after a w), snd (demo_after a w))"
  using demo_step(2) [OF assms] assms(2) by (cases w) (auto simp: demo_after_def intro!: step_intro)

theorem ended_session_silent_witness:
  "is_closed (sh_queues (fst demo_again) ! us_queue demo_session) \<and>
    (\<exists>n. q_inner (sh_queues (fst demo_again) ! us_queue demo_session) =
      drop n (q_inner (sh_queues (fst demo_expired) ! us_queue demo_session))) \<and>
    udp_send_poll demo demo_session [3] (fst demo_again) = Some (PollReady (Inl UdpNotOpen), fst demo_again)"
proof -
  let ?mid = "demo_after (ActIngress demo_datagram) demo_expired"
  have reach: "reachable demo demo_wire (fst demo_expired, snd demo_expired)"
    unfolding demo_expired_def by (intro demo_after_reachable demo_polled_reachable) simp
  have "SessionUdp demo_session \<in> set (snd demo_expired)"
    "is_closed (sh_queues (fst demo_expired) ! us_queue demo_session)" by code_simp+
  moreover have "run (step demo demo_wire) (fst demo_expired, snd demo_expired) [ActIngress demo_datagram, ActPoll demo_ord 21]
      (fst demo_again, snd demo_again)"
  proof (rule run_cons)
    show "step demo demo_wire (ActIngress demo_datagram) (fst demo_expired, snd demo_expired) (fst ?mid, snd ?mid)"
      by (rule demo_after_step [OF reach]) simp
    have "reachable demo demo_wire (fst ?mid, snd ?mid)" by (intro demo_after_reachable reach) simp
    then show "run (step demo demo_wire) (fst ?mid, snd ?mid) [ActPoll demo_ord 21] (fst demo_again, snd demo_again)"
      unfolding demo_again_def by (intro run_one demo_after_step) simp_all
  qed
  ultimately show ?thesis by (rule ended_session_silent [OF demo_laws reach])
qed

end
