(* ===== verification/Concurrency.thy ===== *)
theory Concurrency
  imports Simulation_Interface Session_Frame
begin

text \<open>
  The runner of \<open>src/src/runner.rs\<close> as a program that shares the state with the application, one critical section
  or channel operation at a time. \<open>run_iteration\<close> describes a turn of the loop that is not interrupted; here the
  application may act at every point where the runner does not hold the mutex: between computing the delay
  and sleeping, between two packets, before and after the poll, and while packets and sessions are
  forwarded. What the channels carry in is left open: any packet may arrive, and a send may succeed or find
  the receiver gone. Only the accepted sessions are followed, since they own parts of the shared state.
\<close>

section \<open>The places of the runner\<close>

datatype run_place =
    AtDelay
  | AtSelect std_duration
  | AtQueue ingress_packet
  | AtDrain
  | AtClear
  | AtPoll
  | AtEgress
  | AtSessions
  | AtDrop session
  | AtDone
  | AtStopping
  | AtStopped

record ('i, 's, 't, 'a) conc =
  cc_at :: run_place
  cc_shared :: "('i, 's, 't) shared"
  cc_accepted :: "session list"
  cc_egress :: "egress_packet list"
  cc_accept :: 'a
  cc_app :: "session list"

text \<open>
  The channel of accepted sessions: sending and receiving, and what the receiver's drop leaves. \<open>held\<close> lists
  the sessions inside, which leave in the order in which they came.
\<close>

record 'a accept_channel =
  ac_send :: "'a \<Rightarrow> session \<Rightarrow> 'a option"
  ac_recv :: "'a \<Rightarrow> (session \<times> 'a) option"
  ac_close :: "'a \<Rightarrow> 'a"
  ac_held :: "'a \<Rightarrow> session list"

definition accept_laws :: "('a, 'y) accept_channel_scheme \<Rightarrow> bool" where
  "accept_laws C \<longleftrightarrow>
     channel_law (ac_send C) (ac_held C) \<and>
     (\<forall>ch s ch'. ac_recv C ch = Some (s, ch') \<longrightarrow> ac_held C ch = s # ac_held C ch') \<and>
     (\<forall>ch. ac_held C (ac_close C ch) = [])"

section \<open>Steps\<close>

inductive runner_step ::
    "('i, 's, 't, 'u, 'x) smoltcp_scheme \<Rightarrow> wire \<Rightarrow> ('a, 'y) accept_channel_scheme \<Rightarrow>
     ('i, 's, 't, 'a) conc \<Rightarrow> ('i, 's, 't, 'a) conc \<Rightarrow> bool"
  for S :: "('i, 's, 't, 'u, 'x) smoltcp_scheme" and W :: wire and C :: "('a, 'y) accept_channel_scheme" where
  delay: "cc_at c = AtDelay \<Longrightarrow> next_poll_delay S t (cc_shared c) = (d, sh') \<Longrightarrow>
    runner_step S W C c (c\<lparr>cc_at := AtSelect (sleep_for d), cc_shared := sh'\<rparr>)"
| notified: "cc_at c = AtSelect d \<Longrightarrow> runner_step S W C c (c\<lparr>cc_at := AtDrain\<rparr>)"
| received: "cc_at c = AtSelect d \<Longrightarrow> runner_step S W C c (c\<lparr>cc_at := AtQueue pkt\<rparr>)"
| closed: "cc_at c = AtSelect d \<Longrightarrow> runner_step S W C c (c\<lparr>cc_at := AtStopping\<rparr>)"
| queued: "cc_at c = AtQueue pkt \<Longrightarrow>
    runner_step S W C c (c\<lparr>cc_at := AtDrain, cc_shared := queue_ingress pkt (cc_shared c)\<rparr>)"
| more: "cc_at c = AtDrain \<Longrightarrow> runner_step S W C c (c\<lparr>cc_at := AtQueue pkt\<rparr>)"
| drained: "cc_at c = AtDrain \<Longrightarrow> runner_step S W C c (c\<lparr>cc_at := AtClear\<rparr>)"
| clear: "cc_at c = AtClear \<Longrightarrow> cc_accepted c = s # rest \<Longrightarrow> session_drop S s (cc_shared c) = Some sh' \<Longrightarrow>
    runner_step S W C c (c\<lparr>cc_shared := sh', cc_accepted := rest\<rparr>)"
| cleared: "cc_at c = AtClear \<Longrightarrow> cc_accepted c = [] \<Longrightarrow> runner_step S W C c (c\<lparr>cc_at := AtPoll, cc_egress := []\<rparr>)"
| poll: "cc_at c = AtPoll \<Longrightarrow> poll_locked S W ord now (cc_shared c) = Some (sh', accepted, out) \<Longrightarrow>
    runner_step S W C c (c\<lparr>cc_at := AtEgress, cc_shared := sh', cc_accepted := cc_accepted c @ accepted,
      cc_egress := cc_egress c @ out\<rparr>)"
| egress_sent: "cc_at c = AtEgress \<Longrightarrow> cc_egress c = pkt # rest \<Longrightarrow> runner_step S W C c (c\<lparr>cc_egress := rest\<rparr>)"
| egress_closed: "cc_at c = AtEgress \<Longrightarrow> cc_egress c = pkt # rest \<Longrightarrow>
    runner_step S W C c (c\<lparr>cc_at := AtDone, cc_egress := []\<rparr>)"
| egress_done: "cc_at c = AtEgress \<Longrightarrow> cc_egress c = [] \<Longrightarrow> runner_step S W C c (c\<lparr>cc_at := AtSessions\<rparr>)"
| session_sent: "cc_at c = AtSessions \<Longrightarrow> cc_accepted c = s # rest \<Longrightarrow> ac_send C (cc_accept c) s = Some ch \<Longrightarrow>
    runner_step S W C c (c\<lparr>cc_accepted := rest, cc_accept := ch\<rparr>)"
| session_refused: "cc_at c = AtSessions \<Longrightarrow> cc_accepted c = s # rest \<Longrightarrow> ac_send C (cc_accept c) s = None \<Longrightarrow>
    runner_step S W C c (c\<lparr>cc_at := AtDrop s, cc_accepted := rest\<rparr>)"
| session_dropped: "cc_at c = AtDrop s \<Longrightarrow> session_drop S s (cc_shared c) = Some sh' \<Longrightarrow>
    runner_step S W C c (c\<lparr>cc_at := AtSessions, cc_shared := sh'\<rparr>)"
| sessions_done: "cc_at c = AtSessions \<Longrightarrow> cc_accepted c = [] \<Longrightarrow> runner_step S W C c (c\<lparr>cc_at := AtDone\<rparr>)"
| cycle_done: "cc_at c = AtDone \<Longrightarrow>
    runner_step S W C c (c\<lparr>cc_at := AtDelay, cc_shared := notify_poll_done (cc_shared c)\<rparr>)"
| stop_drop: "cc_at c = AtStopping \<Longrightarrow> cc_accepted c = s # rest \<Longrightarrow> session_drop S s (cc_shared c) = Some sh' \<Longrightarrow>
    runner_step S W C c (c\<lparr>cc_shared := sh', cc_accepted := rest\<rparr>)"
| stopped: "cc_at c = AtStopping \<Longrightarrow> cc_accepted c = [] \<Longrightarrow>
    runner_step S W C c (c\<lparr>cc_at := AtStopped, cc_egress := []\<rparr>)"

text \<open>
  The application uses the sessions it holds, drops them, accepts new ones, injects packets (of which the
  shared state sees only the notification) and may drop the handle: the sessions still in the channel are
  then its own, to be dropped when it gets to them.
\<close>

inductive app_step ::
    "('i, 's, 't, 'u, 'x) smoltcp_scheme \<Rightarrow> wire \<Rightarrow> ('a, 'y) accept_channel_scheme \<Rightarrow>
     ('i, 's, 't, 'a) conc \<Rightarrow> ('i, 's, 't, 'a) conc \<Rightarrow> bool"
  for S :: "('i, 's, 't, 'u, 'x) smoltcp_scheme" and W :: wire and C :: "('a, 'y) accept_channel_scheme" where
  uses: "session_use a \<Longrightarrow> enabled a (cc_app c) \<Longrightarrow> perform S W a (cc_shared c, cc_app c) = Some (sh', app') \<Longrightarrow>
    app_step S W C c (c\<lparr>cc_shared := sh', cc_app := app'\<rparr>)"
| accepts: "ac_recv C (cc_accept c) = Some (s, ch) \<Longrightarrow>
    app_step S W C c (c\<lparr>cc_accept := ch, cc_app := cc_app c @ [s]\<rparr>)"
| injects: "app_step S W C c (c\<lparr>cc_shared := notify_poll (cc_shared c)\<rparr>)"
| hangs_up: "app_step S W C c
    (c\<lparr>cc_accept := ac_close C (cc_accept c), cc_app := cc_app c @ ac_held C (cc_accept c)\<rparr>)"

datatype actor = TheRunner | TheApp

inductive conc_step ::
    "('i, 's, 't, 'u, 'x) smoltcp_scheme \<Rightarrow> wire \<Rightarrow> ('a, 'y) accept_channel_scheme \<Rightarrow> actor \<Rightarrow>
     ('i, 's, 't, 'a) conc \<Rightarrow> ('i, 's, 't, 'a) conc \<Rightarrow> bool"
  for S :: "('i, 's, 't, 'u, 'x) smoltcp_scheme" and W :: wire and C :: "('a, 'y) accept_channel_scheme" where
  runner_moves: "runner_step S W C c c' \<Longrightarrow> conc_step S W C TheRunner c c'"
| app_moves: "app_step S W C c c' \<Longrightarrow> conc_step S W C TheApp c c'"

text \<open>A stack that was just built: the runner at the head of its loop, no session anywhere.\<close>

definition conc_started ::
    "('i, 's, 't, 'u, 'x) smoltcp_scheme \<Rightarrow> ('a, 'y) accept_channel_scheme \<Rightarrow> ('i, 's, 't, 'a) conc \<Rightarrow> bool" where
  "conc_started S C c \<longleftrightarrow>
     started S (cc_shared c, []) \<and> cc_at c = AtDelay \<and> cc_accepted c = [] \<and> cc_egress c = [] \<and>
     ac_held C (cc_accept c) = [] \<and> cc_app c = []"

abbreviation conc_reachable ::
    "('i, 's, 't, 'u, 'x) smoltcp_scheme \<Rightarrow> wire \<Rightarrow> ('a, 'y) accept_channel_scheme \<Rightarrow> ('i, 's, 't, 'a) conc \<Rightarrow> bool" where
  "conc_reachable S W C \<equiv> reach (conc_started S C) (conc_step S W C)"

section \<open>The simulation\<close>

text \<open>All session values that exist: at the runner, in the channel and with the application.\<close>

fun place_session :: "run_place \<Rightarrow> session list" where
  "place_session (AtDrop s) = [s]"
| "place_session _ = []"

definition conc_live :: "('a, 'y) accept_channel_scheme \<Rightarrow> ('i, 's, 't, 'a) conc \<Rightarrow> session list" where
  "conc_live C c = cc_app c @ ac_held C (cc_accept c) @ cc_accepted c @ place_session (cc_at c)"

definition conc_match ::
    "('a, 'y) accept_channel_scheme \<Rightarrow> ('i, 's, 't, 'a) conc \<Rightarrow> ('i, 's, 't) world \<Rightarrow> bool" where
  "conc_match C c w \<longleftrightarrow> fst w = cc_shared c \<and> mset (snd w) = mset (conc_live C c)"

text \<open>The three ways in which a step of the program is matched: by no step, by one, and by a drop.\<close>

lemma match_stutter:
  "conc_match C c (sh, live) \<Longrightarrow> cc_shared c' = cc_shared c \<Longrightarrow> mset (conc_live C c') = mset (conc_live C c) \<Longrightarrow>
    \<exists>as w'. run (step S W) (sh, live) as w' \<and> conc_match C c' w'"
  by (rule exI [of _ "[]"], rule exI [of _ "(sh, live)"]) (simp add: conc_match_def run_nil)

lemma match_one:
  assumes "conc_match C c (sh, live)" and "enabled a live" and "perform S W a (sh, live) = Some (sh', live')"
    and "cc_shared c' = sh'" and "mset (conc_live C c') = mset live'"
  shows "\<exists>as w'. run (step S W) (sh, live) as w' \<and> conc_match C c' w'"
proof -
  have "run (step S W) (sh, live) [a] (sh', live')"
    by (rule run_one [where step = "step S W"]) (rule step_intro [OF assms(2,3)])
  then show ?thesis using assms(4,5) by (auto simp: conc_match_def)
qed

lemma match_live: "conc_match C c (sh, live) \<Longrightarrow> set live = set (conc_live C c)"
  unfolding conc_match_def by (metis mset_eq_setD snd_conv)

lemma match_drop:
  assumes "conc_match C c (sh, live)" and "s \<in> set (conc_live C c)" and "session_drop S s (cc_shared c) = Some sh'"
    and "cc_shared c' = sh'" and "mset (conc_live C c) = add_mset s (mset (conc_live C c'))"
  shows "\<exists>as w'. run (step S W) (sh, live) as w' \<and> conc_match C c' w'"
proof (rule match_one [OF assms(1), where a = "ActDrop s"])
  show "enabled (ActDrop s) live" using match_live [OF assms(1)] assms(2) by simp
  show "perform S W (ActDrop s) (sh, live) = Some (sh', remove1 s live)"
    using assms(1,3) by (simp add: conc_match_def)
  show "mset (conc_live C c') = mset (remove1 s live)" using assms(1,5) by (simp add: conc_match_def)
qed (fact assms(4))


lemmas conc_live_simps = conc_live_def conc_match_def

lemma runner_step_match:
  assumes laws: "accept_laws C" and match: "conc_match C c (sh, live)" and step: "runner_step S W C c c'"
  shows "\<exists>as w'. run (step S W) (sh, live) as w' \<and> conc_match C c' w'"
  using step
proof cases
  case (delay t d sh')
  then show ?thesis using match
    by (intro match_one [OF match, where a = "ActDelay t"]) (auto simp: conc_live_simps)
next
  case (queued pkt)
  then show ?thesis using match
    by (intro match_one [OF match, where a = "ActIngress pkt"]) (auto simp: conc_live_simps)
next
  case (clear s rest sh')
  then show ?thesis by (intro match_drop [OF match, where s = s]) (auto simp: conc_live_simps)
next
  case (poll ord t sh' accepted out)
  then show ?thesis using match
    by (intro match_one [OF match, where a = "ActPoll ord t"]) (auto simp: conc_live_simps)
next
  case (session_sent s rest ch)
  then show ?thesis using laws
    by (intro match_stutter [OF match]) (auto simp: conc_live_simps accept_laws_def channel_law_def)
next
  case (session_dropped s sh')
  then show ?thesis by (intro match_drop [OF match, where s = s]) (auto simp: conc_live_simps)
next
  case cycle_done
  then show ?thesis using match
    by (intro match_one [OF match, where a = ActNotifyDone]) (auto simp: conc_live_simps)
next
  case (stop_drop s rest sh')
  then show ?thesis by (intro match_drop [OF match, where s = s]) (auto simp: conc_live_simps)
qed (rule match_stutter [OF match]; simp add: conc_live_def)+

text \<open>What the application does to the sessions it holds it does to them among all the sessions.\<close>

lemma session_use_frame:
  assumes "session_use a" and "enabled a app" and "perform S W a (sh, app) = Some (sh', app')"
    and "mset live = mset app + rest"
  obtains live' where "enabled a live" "perform S W a (sh, live) = Some (sh', live')"
    "mset live' = mset app' + rest"
proof -
  have sub: "set app \<subseteq> set live" using assms(4) by (metis mset_subset_eqD mset_subset_eq_add_left set_mset_mset subsetI)
  show thesis
  proof (cases a)
    case (ActDrop s)
    then have in_app: "s \<in> set app" and drop: "session_drop S s sh = Some sh'" "app' = remove1 s app"
      using assms(2,3) by auto
    show thesis
      by (rule that [of "remove1 s live"]) (use in_app drop sub ActDrop assms(4) in auto)
  qed (use that [of live] assms sub in auto)
qed

lemma app_step_match:
  assumes laws: "accept_laws C" and match: "conc_match C c (sh, live)" and step: "app_step S W C c c'"
  shows "\<exists>as w'. run (step S W) (sh, live) as w' \<and> conc_match C c' w'"
  using step
proof cases
  case (uses a sh' app')
  have "mset live = mset (cc_app c) + mset (ac_held C (cc_accept c) @ cc_accepted c @ place_session (cc_at c))"
    using match by (simp add: conc_live_simps)
  from session_use_frame [OF uses(2-4) this] obtain live' where
    "enabled a live" "perform S W a (cc_shared c, live) = Some (sh', live')"
    "mset live' = mset app' + mset (ac_held C (cc_accept c) @ cc_accepted c @ place_session (cc_at c))" .
  then show ?thesis using match uses(1)
    by (intro match_one [OF match, where a = a]) (auto simp: conc_live_simps)
next
  case injects
  then show ?thesis using match
    by (intro match_one [OF match, where a = ActNotify]) (auto simp: conc_live_simps)
next
  case (accepts s ch)
  then have "ac_held C (cc_accept c) = s # ac_held C ch" using laws by (simp add: accept_laws_def)
  then show ?thesis using accepts(1) by (intro match_stutter [OF match]) (simp_all add: conc_live_simps)
next
  case hangs_up
  then show ?thesis using laws by (intro match_stutter [OF match]) (simp_all add: conc_live_simps accept_laws_def)
qed

interpretation conc: forward_simulation "conc_started S C" "conc_step S W C" "started S" "step S W"
    "\<lambda>c w. accept_laws C \<longrightarrow> conc_match C c w"
  for S :: "('i, 's, 't, 'u, 'x) smoltcp_scheme" and W :: wire and C :: "('a, 'y) accept_channel_scheme"
proof
  show "\<exists>w. started S w \<and> (accept_laws C \<longrightarrow> conc_match C c w)" if "conc_started S C c" for c
    using that by (intro exI [of _ "(cc_shared c, [])"]) (simp add: conc_started_def conc_live_simps)
  show "\<exists>as w'. run (step S W) w as w' \<and> (accept_laws C \<longrightarrow> conc_match C c' w')"
    if "accept_laws C \<longrightarrow> conc_match C c w" "conc_step S W C b c c'" for c w b c'
  proof (cases "accept_laws C")
    case True
    then have "conc_match C c (fst w, snd w)" using that(1) by simp
    from runner_step_match [OF True this] app_step_match [OF True this] show ?thesis
      using that(2) True by (auto elim!: conc_step.cases)
  next
    case False
    then show ?thesis by (blast intro: run_nil)
  qed
qed

text \<open>The state the two share satisfies the invariants of the system, with all the sessions that exist.\<close>

lemma conc_world:
  assumes "accept_laws C" and "conc_reachable S W C c"
  obtains live where "reachable S W (cc_shared c, live)" "mset live = mset (conc_live C c)"
  using conc.reach_match [OF assms(2)] assms(1) by (auto simp: conc_match_def)

section \<open>The runner is never stuck\<close>

lemma conc_drop:
  assumes "accept_laws C" and "engine_laws S W" and "conc_reachable S W C c" and "s \<in> set (conc_live C c)"
  shows "\<exists>sh'. session_drop S s (cc_shared c) = Some sh'"
proof -
  obtain live where live: "reachable S W (cc_shared c, live)" "mset live = mset (conc_live C c)"
    by (rule conc_world [OF assms(1,3)])
  have "enabled (ActDrop s) live" using assms(4) live(2) by (metis enabled.simps(6) mset_eq_setD)
  from perform_good [OF assms(2) _ this] reachable_good [OF assms(2) live(1)] show ?thesis
    by (auto simp: world_good_def)
qed

lemma conc_poll:
  assumes "accept_laws C" and "engine_laws S W" and "conc_reachable S W C c"
  shows "\<exists>r. poll_locked S W ord t (cc_shared c) = Some r"
proof -
  obtain live where live: "reachable S W (cc_shared c, live)" "mset live = mset (conc_live C c)"
    by (rule conc_world [OF assms(1,3)])
  have "enabled (ActPoll ord t) live" by simp
  from perform_good [OF assms(2) _ this] reachable_good [OF assms(2) live(1)] show ?thesis
    by (fastforce simp: world_good_def)
qed

lemma runner_can_step:
  assumes "accept_laws C" and "engine_laws S W" and "conc_reachable S W C c" and "cc_at c \<noteq> AtStopped"
  shows "\<exists>c'. runner_step S W C c c'"
proof -
  have drop: "\<exists>sh'. session_drop S s (cc_shared c) = Some sh'" if "s \<in> set (conc_live C c)" for s
    by (rule conc_drop [OF assms(1-3) that])
  have acc: "\<exists>sh'. session_drop S s (cc_shared c) = Some sh'" if "cc_accepted c = s # rest" for s rest
    by (rule drop) (simp add: conc_live_def that)
  show ?thesis
  proof (cases "cc_at c")
    case AtDelay
    then show ?thesis by (metis runner_step.delay surj_pair)
  next
    case AtClear
    then show ?thesis using acc by (cases "cc_accepted c") (blast intro: runner_step.intros)+
  next
    case AtPoll
    then show ?thesis using conc_poll [OF assms(1-3)] by (metis runner_step.poll prod_cases3)
  next
    case AtEgress
    then show ?thesis by (cases "cc_egress c") (blast intro: runner_step.intros)+
  next
    case AtSessions
    then show ?thesis
      by (cases "cc_accepted c"; cases "ac_send C (cc_accept c) (hd (cc_accepted c))")
        (auto intro: runner_step.intros)
  next
    case (AtDrop s)
    then have "s \<in> set (conc_live C c)" by (simp add: conc_live_def)
    with drop AtDrop show ?thesis by (blast intro: runner_step.intros)
  next
    case AtStopping
    then show ?thesis using acc by (cases "cc_accepted c") (blast intro: runner_step.intros)+
  qed (use assms(4) in \<open>blast intro: runner_step.intros\<close>)+
qed

end
