(* ===== verification/Wakeups.thy ===== *)
theory Wakeups
  imports Example_Engine
begin

text \<open>
  Waiting and waking, one memory access at a time. A \<open>Notify\<close> of \<open>tokio\<close> with \<open>notify_waiters\<close> keeps no
  permit: a future made by \<open>notified()\<close> is completed by the first call of \<open>notify_waiters\<close> after it was made, and
  by none before. The number of calls, which the model counts, is therefore all there is to it: the future
  remembers the count at its creation and is complete when the count has changed.

  The first part splits \<open>recv\<close> of \<open>src/src/stream/udp.rs\<close> and the two operations of the runner on the queue
  into their accesses; the second part splits \<open>send\<close> and the loop \<open>run\<close> of \<open>src/src/runner.rs\<close>.
\<close>

section \<open>Receiving\<close>

text \<open>Where a task is inside \<open>recv\<close>: before \<open>pop\<close>, before \<open>is_closed\<close>, before \<open>notified()\<close>, at the \<open>await\<close>, or back.\<close>

datatype recv_pc = RecvPop | RecvCheck | RecvNotified | RecvAwait nat | RecvReturned "bytes option"

fun recv_step :: "recv_pc \<Rightarrow> udp_queue \<Rightarrow> (recv_pc \<times> udp_queue) option" where
  "recv_step RecvPop q =
     (case udp_queue_pop q of
        (Some data, q) \<Rightarrow> Some (RecvReturned (Some data), q)
      | (None, q) \<Rightarrow> Some (RecvCheck, q))"
| "recv_step RecvCheck q = Some (if is_closed q then RecvReturned None else RecvNotified, q)"
| "recv_step RecvNotified q = Some (RecvAwait (q_notify q), q)"
| "recv_step (RecvAwait n) q = (if q_notify q = n then None else Some (RecvPop, q))"
| "recv_step (RecvReturned r) q = None"

text \<open>
  \<open>push\<close> and \<open>mark_closed\<close> write first and notify afterwards; in between a notification is owed. The runner
  writes to a queue only while it is registered, and a registered queue is open.
\<close>

definition push_back :: "bytes \<Rightarrow> udp_queue \<Rightarrow> udp_queue" where
  "push_back data q = q\<lparr>q_inner := q_inner q @ [data]\<rparr>"

definition store_closed :: "udp_queue \<Rightarrow> udp_queue" where
  "store_closed q = q\<lparr>q_closed := True\<rparr>"

definition notify_waiters :: "udp_queue \<Rightarrow> udp_queue" where
  "notify_waiters q = q\<lparr>q_notify := Suc (q_notify q)\<rparr>"

lemma queue_writes:
  "udp_queue_push data q = notify_waiters (push_back data q)"
  "mark_closed q = notify_waiters (store_closed q)"
  by (simp_all add: udp_queue_push_def mark_closed_def notify_waiters_def push_back_def store_closed_def)

type_synonym recv_state = "recv_pc \<times> bool \<times> udp_queue"

inductive queue_step :: "recv_state \<Rightarrow> recv_state \<Rightarrow> bool" where
  receiver: "recv_step pc q = Some (pc', q') \<Longrightarrow> queue_step (pc, owed, q) (pc', owed, q')"
| pushes: "\<not> is_closed q \<Longrightarrow> queue_step (pc, False, q) (pc, True, push_back data q)"
| closes: "\<not> is_closed q \<Longrightarrow> queue_step (pc, False, q) (pc, True, store_closed q)"
| notifies: "queue_step (pc, True, q) (pc, False, notify_waiters q)"

inductive_cases queue_stepE: "queue_step s s'"

text \<open>The receiver alone, until it returns or waits.\<close>

fun recv_alone :: "nat \<Rightarrow> recv_pc \<times> udp_queue \<Rightarrow> recv_pc \<times> udp_queue" where
  "recv_alone 0 s = s"
| "recv_alone (Suc n) (pc, q) = (case recv_step pc q of None \<Rightarrow> (pc, q) | Some s \<Rightarrow> recv_alone n s)"

lemma recv_alone_steps: "queue_step\<^sup>*\<^sup>* (pc, owed, q) (fst (recv_alone n (pc, q)), owed, snd (recv_alone n (pc, q)))"
proof (induction n arbitrary: pc q)
  case (Suc n)
  show ?case
  proof (cases "recv_step pc q")
    case (Some s)
    obtain pc' q' where s: "s = (pc', q')" by fastforce
    have "queue_step (pc, owed, q) (pc', owed, q')" by (rule receiver) (simp add: Some s)
    then show ?thesis using Suc [of pc' q'] by (simp add: Some s converse_rtranclp_into_rtranclp)
  qed simp
qed simp

lemma recv_alone_poll:
  "recv_alone 3 (RecvPop, q) =
    (case q_inner q of
       data # rest \<Rightarrow> (RecvReturned (Some data), q\<lparr>q_inner := rest\<rparr>)
     | [] \<Rightarrow> (if is_closed q then RecvReturned None else RecvAwait (q_notify q), q))"
  by (auto simp: numeral_3_eq_3 udp_queue_pop_def split: list.split)

text \<open>Without interference the accesses of \<open>recv\<close> are the atomic operation \<open>udp_recv_poll\<close>.\<close>

lemma udp_recv_poll_alone:
  "udp_recv_poll us sh =
    (case recv_alone 3 (RecvPop, sh_queues sh ! us_queue us) of
       (RecvReturned r, q) \<Rightarrow> (PollReady r, sh\<lparr>sh_queues := (sh_queues sh)[us_queue us := q]\<rparr>)
     | _ \<Rightarrow> (PollPending, sh))"
  unfolding recv_alone_poll by (simp add: udp_recv_poll_def udp_queue_pop_def split: list.split)

definition nothing_missed :: "nat \<Rightarrow> recv_state \<Rightarrow> bool" where
  "nothing_missed n = (\<lambda>(pc, owed, q).
     n < q_notify q \<or>
     (pc = RecvAwait n \<and> q_notify q = n \<and> (owed \<or> q_inner q = [] \<and> \<not> is_closed q)))"

lemma queue_step_nothing_missed:
  assumes "queue_step s s'" and "nothing_missed n s"
  shows "nothing_missed n s'"
  using assms(1)
proof cases
  case (receiver pc q pc' q' owed)
  have "q_notify q' = q_notify q"
    using receiver(3) by (cases pc) (auto simp: udp_queue_pop_def split: list.splits if_splits)
  then show ?thesis using assms(2) receiver by (auto simp: nothing_missed_def)
qed (use assms(2) in \<open>auto simp: nothing_missed_def push_back_def store_closed_def notify_waiters_def\<close>)

text \<open>
  C38. A receiver that has started to wait on an empty, open queue misses nothing: whatever the runner does
  to the queue afterwards, once it has notified, a datagram or the close makes the receiver runnable, and it
  then returns the oldest datagram, or the end if there is none.
\<close>

theorem await_misses_nothing:
  assumes "q_inner q = []" and "\<not> is_closed q" and "q_notify q = n"
    and "queue_step\<^sup>*\<^sup>* (RecvAwait n, False, q) (RecvAwait n, False, q')"
    and "q_inner q' \<noteq> [] \<or> is_closed q'"
  shows "recv_step (RecvAwait n) q' = Some (RecvPop, q') \<and>
    recv_alone 3 (RecvPop, q') =
      (case q_inner q' of
         data # rest \<Rightarrow> (RecvReturned (Some data), q'\<lparr>q_inner := rest\<rparr>)
       | [] \<Rightarrow> (RecvReturned None, q'))"
proof -
  have "nothing_missed n (RecvAwait n, False, q')"
    using assms(4)
  proof (induction rule: rtranclp_induct)
    case base
    show ?case using assms(1-3) by (simp add: nothing_missed_def)
  qed (rule queue_step_nothing_missed)
  then show ?thesis
    using assms(5) unfolding recv_alone_poll by (auto simp: nothing_missed_def split: list.split)
qed

theorem await_misses_nothing_witness:
  "recv_step (RecvAwait 0) (notify_waiters (push_back [1] udp_queue_new)) =
    Some (RecvPop, notify_waiters (push_back [1] udp_queue_new))"
proof -
  have "queue_step (RecvAwait 0, False, udp_queue_new) (RecvAwait 0, True, push_back [1] udp_queue_new)"
    by (rule pushes) simp
  moreover have "queue_step (RecvAwait 0, True, push_back [1] udp_queue_new)
      (RecvAwait 0, False, notify_waiters (push_back [1] udp_queue_new))" by (rule notifies)
  ultimately have "queue_step\<^sup>*\<^sup>* (RecvAwait 0, False, udp_queue_new)
      (RecvAwait 0, False, notify_waiters (push_back [1] udp_queue_new))" by simp
  from await_misses_nothing [OF _ _ _ this] show ?thesis
    by (simp add: udp_queue_new_def is_closed_def push_back_def notify_waiters_def)
qed

text \<open>
  C39. Between looking at the queue and starting to wait, \<open>recv\<close> misses what happens. If the runner closes the
  queue in between, the receiver waits although the session is closed, and no step is left in the system:
  it waits forever. If a datagram arrives in between, the receiver is blocked on a queue that holds it.
\<close>

theorem recv_may_wait_forever:
  assumes "q_inner q = []" and "\<not> is_closed q"
  shows "(\<exists>n q'. queue_step\<^sup>*\<^sup>* (RecvPop, False, q) (RecvAwait n, False, q') \<and> is_closed q' \<and>
      (\<nexists>s. queue_step (RecvAwait n, False, q') s)) \<and>
    (\<exists>n q'. queue_step\<^sup>*\<^sup>* (RecvPop, False, q) (RecvAwait n, False, q') \<and> q_inner q' = [data] \<and>
      recv_step (RecvAwait n) q' = None)"
proof
  have start: "queue_step\<^sup>*\<^sup>* (RecvPop, False, q) (RecvNotified, False, q)"
    using recv_alone_steps [of RecvPop False q 2] assms by (simp add: numeral_2_eq_2 udp_queue_pop_def)
  have await: "queue_step (RecvNotified, False, q') (RecvAwait (q_notify q'), False, q')" for q'
    by (rule receiver) simp
  have close: "queue_step (RecvNotified, False, q) (RecvNotified, True, store_closed q)" using assms(2) by (rule closes)
  have push: "queue_step (RecvNotified, False, q) (RecvNotified, True, push_back data q)" using assms(2) by (rule pushes)
  have notify: "queue_step (RecvNotified, True, q') (RecvNotified, False, notify_waiters q')" for q' by (rule notifies)
  let ?q = "notify_waiters (store_closed q)" and ?d = "notify_waiters (push_back data q)"
  have "queue_step\<^sup>*\<^sup>* (RecvPop, False, q) (RecvAwait (q_notify ?q), False, ?q)"
    using start close notify await by (meson rtranclp.rtrancl_into_rtrancl)
  moreover have "is_closed ?q" by (simp add: is_closed_def notify_waiters_def store_closed_def)
  moreover from this have "\<nexists>s. queue_step (RecvAwait (q_notify ?q), False, ?q) s" by (auto elim: queue_stepE)
  ultimately show "\<exists>n q'. queue_step\<^sup>*\<^sup>* (RecvPop, False, q) (RecvAwait n, False, q') \<and> is_closed q' \<and>
      (\<nexists>s. queue_step (RecvAwait n, False, q') s)" by blast
  have "queue_step\<^sup>*\<^sup>* (RecvPop, False, q) (RecvAwait (q_notify ?d), False, ?d)"
    using start push notify await by (meson rtranclp.rtrancl_into_rtrancl)
  moreover have "q_inner ?d = [data]" using assms(1) by (simp add: notify_waiters_def push_back_def)
  ultimately show "\<exists>n q'. queue_step\<^sup>*\<^sup>* (RecvPop, False, q) (RecvAwait n, False, q') \<and> q_inner q' = [data] \<and>
      recv_step (RecvAwait n) q' = None" by auto
qed

theorem recv_may_wait_forever_witness:
  "\<exists>n q'. queue_step\<^sup>*\<^sup>* (RecvPop, False, udp_queue_new) (RecvAwait n, False, q') \<and> is_closed q'"
proof -
  have "q_inner udp_queue_new = []" "\<not> is_closed udp_queue_new" by (simp_all add: udp_queue_new_def is_closed_def)
  from recv_may_wait_forever [OF this, of "[1]"] show ?thesis by blast
qed

section \<open>Sending and the loop of the runner\<close>

text \<open>
  Where a task is inside \<open>send\<close>: before an attempt, with the outcome of one, before \<open>poll_done.notified()\<close>, at the
  \<open>await\<close>, or back; and where the runner is inside \<open>run\<close>: before the poll under the lock, before
  \<open>notify_poll_done\<close>, before the delay is computed, before the futures of \<open>select!\<close> are made, or asleep with a
  timer.
\<close>

datatype send_pc = SendTry | SendTried send_outcome | SendNotified | SendAwait nat | SendReturned "netstack_error + unit"

datatype run_pc = RunPoll | RunDone | RunDelay | RunSelect std_duration | RunAsleep nat std_duration

inductive send_step ::
    "('i, 's, 't, 'u, 'x) smoltcp_scheme \<Rightarrow> way_udp_session \<Rightarrow> bytes \<Rightarrow> send_pc \<times> ('i, 's, 't) shared \<Rightarrow>
     send_pc \<times> ('i, 's, 't) shared \<Rightarrow> bool"
  for S :: "('i, 's, 't, 'u, 'x) smoltcp_scheme" and us payload where
  tries: "udp_try_send S us payload (sk_src (us_key us)) sh = Some (outcome, sh') \<Longrightarrow>
    send_step S us payload (SendTry, sh) (SendTried outcome, sh')"
| sent: "send_step S us payload (SendTried SendSent, sh) (SendReturned (Inr ()), notify_poll sh)"
| full: "send_step S us payload (SendTried SendFull, sh) (SendNotified, notify_poll sh)"
| failed: "send_step S us payload (SendTried (SendFailed e), sh) (SendReturned (Inl e), sh)"
| makes_future: "send_step S us payload (SendNotified, sh) (SendAwait (poll_done sh), sh)"
| retries: "poll_done sh \<noteq> n \<Longrightarrow> send_step S us payload (SendAwait n, sh) (SendTry, sh)"

text \<open>The timer and an arriving packet wake the runner as well; they are not steps of the two tasks.\<close>

inductive run_step ::
    "('i, 's, 't, 'u, 'x) smoltcp_scheme \<Rightarrow> wire \<Rightarrow> run_pc \<times> ('i, 's, 't) shared \<Rightarrow>
     run_pc \<times> ('i, 's, 't) shared \<Rightarrow> bool"
  for S :: "('i, 's, 't, 'u, 'x) smoltcp_scheme" and W where
  polls: "poll_locked S W ord now sh = Some (sh', accepted, out) \<Longrightarrow> run_step S W (RunPoll, sh) (RunDone, sh')"
| done_notifies: "run_step S W (RunDone, sh) (RunDelay, notify_poll_done sh)"
| delays: "next_poll_delay S now sh = (d, sh') \<Longrightarrow> run_step S W (RunDelay, sh) (RunSelect (sleep_for d), sh')"
| selects: "run_step S W (RunSelect d, sh) (RunAsleep (poll_notify sh) d, sh)"
| wakes: "poll_notify sh \<noteq> n \<Longrightarrow> run_step S W (RunAsleep n d, sh) (RunPoll, sh)"

inductive both_step ::
    "('i, 's, 't, 'u, 'x) smoltcp_scheme \<Rightarrow> wire \<Rightarrow> way_udp_session \<Rightarrow> bytes \<Rightarrow>
     send_pc \<times> run_pc \<times> ('i, 's, 't) shared \<Rightarrow> send_pc \<times> run_pc \<times> ('i, 's, 't) shared \<Rightarrow> bool"
  for S :: "('i, 's, 't, 'u, 'x) smoltcp_scheme" and W us payload where
  sender: "send_step S us payload (p, sh) (p', sh') \<Longrightarrow> both_step S W us payload (p, r, sh) (p', r, sh')"
| runner: "run_step S W (r, sh) (r', sh') \<Longrightarrow> both_step S W us payload (p, r, sh) (p, r', sh')"

inductive_cases send_awaitE: "send_step S us payload (SendAwait n, sh) s"
inductive_cases run_asleepE: "run_step S W (RunAsleep n d, sh) s"
inductive_cases both_stepE: "both_step S W us payload s s'"

lemma both_blocked:
  "poll_done sh = n \<Longrightarrow> poll_notify sh = k \<Longrightarrow> \<not> both_step S W us payload (SendAwait n, RunAsleep k d, sh) s"
  by (auto elim!: both_stepE send_awaitE run_asleepE)


definition demo_full :: "(ip_cidr list, demo_set, demo_tcp) world" where
  "demo_full = demo_after (ActSend demo_session [2]) (demo_after (ActSend demo_session [1]) demo_polled)"

lemma demo_full_reachable:
  "reachable demo demo_wire (fst demo_full, snd demo_full)" "SessionUdp demo_session \<in> set (snd demo_full)"
proof -
  have "SessionUdp demo_session \<in> set (snd (demo_after (ActSend demo_session [1]) demo_polled))" by code_simp
  then show "reachable demo demo_wire (fst demo_full, snd demo_full)"
    unfolding demo_full_def by (intro demo_after_reachable demo_polled_reachable) (simp_all add: demo_polled_live)
  show "SessionUdp demo_session \<in> set (snd demo_full)" by code_simp
qed




end
