(* ===== verification/Concurrency_Properties.thy ===== *)
theory Concurrency_Properties
  imports Concurrency Wakeups
begin

text \<open>
  Properties of the runner and the application under all interleavings: the refinement of the transition
  system of \<open>System\<close>, progress, what the runner does when it is not interrupted, and what is left when it has
  stopped.
\<close>

section \<open>A turn of the loop without interference\<close>

text \<open>The state of a runner at one of its places, together with the sessions of the application.\<close>

definition conc_of ::
    "run_place \<Rightarrow> session list \<Rightarrow> ('i, 's, 't, 'e, 'a) runner \<Rightarrow> ('i, 's, 't, 'a) conc" where
  "conc_of p app ru =
     \<lparr>cc_at = p, cc_shared = ru_shared ru, cc_accepted = scratch_accepted ru, cc_egress = scratch_egress ru,
      cc_accept = ru_accept_tx ru, cc_app = app\<rparr>"

lemmas runner_stepI = converse_rtranclp_into_rtranclp [where r = "runner_step S W C" for S W C]

lemma ingress_alone:
  "cc_at c = AtDrain \<Longrightarrow>
    (runner_step S W C)\<^sup>*\<^sup>* c (c\<lparr>cc_shared := fold queue_ingress pkts (cc_shared c)\<rparr>)"
proof (induction pkts arbitrary: c)
  case (Cons pkt pkts)
  let ?c1 = "c\<lparr>cc_at := AtQueue pkt\<rparr>"
  let ?c2 = "?c1\<lparr>cc_at := AtDrain, cc_shared := queue_ingress pkt (cc_shared ?c1)\<rparr>"
  have "runner_step S W C c ?c1" by (rule runner_step.more) (fact Cons.prems)
  moreover have "runner_step S W C ?c1 ?c2" by (rule runner_step.queued) simp
  moreover have "(runner_step S W C)\<^sup>*\<^sup>* ?c2 (c\<lparr>cc_shared := fold queue_ingress (pkt # pkts) (cc_shared c)\<rparr>)"
    using Cons.IH [of ?c2] Cons.prems by (cases c) simp
  ultimately show ?case by (meson runner_stepI)
qed simp

lemma drops_alone:
  "cc_at c = AtClear \<Longrightarrow> for_each (session_drop S) (cc_accepted c) (cc_shared c) = Some sh' \<Longrightarrow>
    (runner_step S W C)\<^sup>*\<^sup>* c (c\<lparr>cc_shared := sh', cc_accepted := []\<rparr>)"
proof (induction "cc_accepted c" arbitrary: c)
  case Nil
  then show ?case by (cases c) simp
next
  case (Cons s rest)
  obtain sh1 where drop: "session_drop S s (cc_shared c) = Some sh1" "for_each (session_drop S) rest sh1 = Some sh'"
    using Cons.prems(2) by (auto simp: bind_eq_Some_conv simp flip: Cons.hyps(2))
  let ?c1 = "c\<lparr>cc_shared := sh1, cc_accepted := rest\<rparr>"
  have "runner_step S W C c ?c1" by (rule runner_step.clear) (use Cons.prems(1) Cons.hyps(2) drop(1) in simp_all)
  moreover have "(runner_step S W C)\<^sup>*\<^sup>* ?c1 (c\<lparr>cc_shared := sh', cc_accepted := []\<rparr>)"
    using Cons.hyps(1) [of ?c1] Cons.prems(1) drop(2) by simp
  ultimately show ?case by (rule runner_stepI)
qed

lemma egress_alone:
  "cc_at c = AtEgress \<Longrightarrow> forward_egress egress_send (cc_egress c) ch = (ok, ch') \<Longrightarrow>
    (runner_step S W C)\<^sup>*\<^sup>* c (c\<lparr>cc_at := (if ok then AtSessions else AtDone), cc_egress := []\<rparr>)"
proof (induction "cc_egress c" arbitrary: c ch)
  case Nil
  then have "runner_step S W C c (c\<lparr>cc_at := AtSessions\<rparr>)" by (intro runner_step.egress_done) simp_all
  then show ?case using Nil by (cases c) auto
next
  case (Cons pkt rest)
  note at = Cons.prems(1) and egress = Cons.hyps(2) [symmetric]
  show ?case
  proof (cases "egress_send ch pkt")
    case None
    then show ?thesis using Cons.prems(2) runner_step.egress_closed [OF at egress, of S W C] by (simp add: egress)
  next
    case (Some ch1)
    let ?c1 = "c\<lparr>cc_egress := rest\<rparr>"
    have "(runner_step S W C)\<^sup>*\<^sup>* ?c1 (?c1\<lparr>cc_at := (if ok then AtSessions else AtDone), cc_egress := []\<rparr>)"
      by (rule Cons.hyps(1) [where ch = ch1]) (use Cons.prems Some in \<open>simp_all add: egress\<close>)
    with runner_step.egress_sent [OF at egress, of S W C] show ?thesis by (auto intro: runner_stepI)
  qed
qed

lemma sessions_alone:
  "cc_at c = AtSessions \<Longrightarrow>
    for_each (forward_session S (ac_send C)) (cc_accepted c) (cc_shared c, cc_accept c) = Some (sh', ch') \<Longrightarrow>
    (runner_step S W C)\<^sup>*\<^sup>* c (c\<lparr>cc_shared := sh', cc_accepted := [], cc_accept := ch'\<rparr>)"
proof (induction "cc_accepted c" arbitrary: c)
  case Nil
  then show ?case by (cases c) simp
next
  case (Cons s rest)
  note at = Cons.prems(1) and acc = Cons.hyps(2) [symmetric]
  obtain sh1 ch1 where one: "forward_session S (ac_send C) s (cc_shared c, cc_accept c) = Some (sh1, ch1)"
    and more: "for_each (forward_session S (ac_send C)) rest (sh1, ch1) = Some (sh', ch')"
    using Cons.prems(2) by (auto simp: bind_eq_Some_conv acc)
  let ?c1 = "c\<lparr>cc_shared := sh1, cc_accepted := rest, cc_accept := ch1\<rparr>"
  have rest: "(runner_step S W C)\<^sup>*\<^sup>* ?c1 (c\<lparr>cc_shared := sh', cc_accepted := [], cc_accept := ch'\<rparr>)"
    using Cons.hyps(1) [of ?c1] at more by simp
  show ?case
  proof (cases "ac_send C (cc_accept c) s")
    case None
    then have drop: "session_drop S s (cc_shared c) = Some sh1" "ch1 = cc_accept c"
      using one by (auto simp: forward_session_def bind_eq_Some_conv)
    have "runner_step S W C (c\<lparr>cc_at := AtDrop s, cc_accepted := rest\<rparr>) ?c1"
      using runner_step.session_dropped [of "c\<lparr>cc_at := AtDrop s, cc_accepted := rest\<rparr>" s S sh1 W C] drop at
      by (cases c) simp
    with runner_step.session_refused [OF at acc None, of S W] rest show ?thesis by (meson runner_stepI)
  next
    case (Some ch2)
    then have "?c1 = c\<lparr>cc_accepted := rest, cc_accept := ch2\<rparr>" using one by (cases c) (simp add: forward_session_def)
    with runner_step.session_sent [OF at acc Some, of S W] rest show ?thesis by (metis runner_stepI)
  qed
qed

lemma poll_once_alone:
  assumes "poll_once S W egress_send (ac_send C) ord now ru = Some ru'"
  shows "(runner_step S W C)\<^sup>*\<^sup>* (conc_of AtClear app ru) (conc_of AtDone app ru')"
proof -
  obtain sh1 sh2 accepted out where
    clear: "for_each (session_drop S) (scratch_accepted ru) (ru_shared ru) = Some sh1"
    and locked: "poll_locked S W ord now sh1 = Some (sh2, accepted, out)"
    using assms by (auto simp: poll_once_def bind_eq_Some_conv)
  obtain ok etx where fwd: "forward_egress egress_send out (ru_egress_tx ru) = (ok, etx)" by fastforce
  let ?c0 = "conc_of AtClear app ru"
  let ?c1 = "?c0\<lparr>cc_shared := sh1, cc_accepted := []\<rparr>"
  let ?c2 = "?c1\<lparr>cc_at := AtPoll, cc_egress := []\<rparr>"
  let ?c3 = "?c2\<lparr>cc_at := AtEgress, cc_shared := sh2, cc_accepted := accepted, cc_egress := out\<rparr>"
  let ?c4 = "?c3\<lparr>cc_at := (if ok then AtSessions else AtDone), cc_egress := []\<rparr>"
  have "(runner_step S W C)\<^sup>*\<^sup>* ?c0 ?c1" by (rule drops_alone) (simp_all add: conc_of_def clear)
  also have "(runner_step S W C)\<^sup>*\<^sup>* ?c1 ?c2"
    by (rule r_into_rtranclp, rule runner_step.cleared) (simp_all add: conc_of_def)
  also have "(runner_step S W C)\<^sup>*\<^sup>* ?c2 ?c3"
    using runner_step.poll [of ?c2 S W ord now sh2 accepted out C] locked by (simp add: r_into_rtranclp)
  also have "(runner_step S W C)\<^sup>*\<^sup>* ?c3 ?c4"
    by (rule egress_alone [where egress_send = egress_send and ch = "ru_egress_tx ru" and ch' = etx]) (simp_all add: fwd)
  finally have to4: "(runner_step S W C)\<^sup>*\<^sup>* ?c0 ?c4" .
  show ?thesis
  proof (cases ok)
    case False
    then have "?c4 = conc_of AtDone app ru'" using assms by (auto simp: poll_once_def clear locked fwd conc_of_def)
    with to4 show ?thesis by simp
  next
    case True
    then obtain sh3 ch3 where three:
      "for_each (forward_session S (ac_send C)) accepted (sh2, ru_accept_tx ru) = Some (sh3, ch3)"
      "ru_shared ru' = sh3" "ru_accept_tx ru' = ch3" "scratch_accepted ru' = []" "scratch_egress ru' = []"
      using assms by (auto simp: poll_once_def clear locked fwd bind_eq_Some_conv)
    let ?c5 = "?c4\<lparr>cc_shared := sh3, cc_accepted := [], cc_accept := ch3\<rparr>"
    note to4
    also have "(runner_step S W C)\<^sup>*\<^sup>* ?c4 ?c5"
      by (rule sessions_alone) (use True three in \<open>simp_all add: conc_of_def\<close>)
    also have "(runner_step S W C)\<^sup>*\<^sup>* ?c5 (?c5\<lparr>cc_at := AtDone\<rparr>)"
      by (rule r_into_rtranclp, rule runner_step.sessions_done) (simp_all add: True)
    also have "?c5\<lparr>cc_at := AtDone\<rparr> = conc_of AtDone app ru'" by (simp add: conc_of_def three)
    finally show ?thesis .
  qed
qed

text \<open>A channel that keeps the sessions, and a started stack on the engine of the examples.\<close>

definition demo_accept :: "session list accept_channel" where
  "demo_accept =
     \<lparr>ac_send = demo_send, ac_recv = (\<lambda>ch. case ch of [] \<Rightarrow> None | s # ch \<Rightarrow> Some (s, ch)),
      ac_close = (\<lambda>ch. []), ac_held = (\<lambda>ch. ch)\<rparr>"

lemma demo_accept_laws: "accept_laws demo_accept"
  by (auto simp: accept_laws_def demo_accept_def channel_law_def demo_send_def split: list.splits)



section \<open>All interleavings\<close>

text \<open>
  C11. The runner and the application, interleaved in any way at the points where no lock is held, never bring
  the shared state where the transition system could not: every state they reach together is a reachable
  state of the system, with exactly the sessions that exist at the runner, in the accept channel and with
  the application. All invariants of the reachable states hold under concurrency.
\<close>

theorem conc_refines_system:
  assumes "accept_laws C" and "conc_reachable S W C c"
  shows "\<exists>live. reachable S W (cc_shared c, live) \<and>
    mset live = mset (cc_app c @ ac_held C (cc_accept c) @ cc_accepted c @ place_session (cc_at c))"
  by (rule conc_world [OF assms]) (auto simp: conc_live_def)

text \<open>
  The stack of the examples: the runner takes the two packets and polls, the application waits.
\<close>

definition demo_conc :: "(ip_cidr list, demo_set, demo_tcp, session list) conc" where
  "demo_conc =
     \<lparr>cc_at = AtDelay, cc_shared = demo_started, cc_accepted = [], cc_egress = [], cc_accept = [], cc_app = []\<rparr>"

lemma demo_conc_start: "conc_reachable demo demo_wire demo_accept demo_conc"
  by (rule reach_initial [where step = "conc_step demo demo_wire demo_accept"])
    (simp add: conc_started_def demo_conc_def demo_accept_def demo_started_world)

lemma runner_reach:
  assumes "conc_reachable S W C c" and "(runner_step S W C)\<^sup>*\<^sup>* c c'"
  shows "conc_reachable S W C c'"
  using assms(2,1) by (induction rule: rtranclp_induct) (auto intro: reach_step runner_moves)

definition demo_conc_polled :: "(ip_cidr list, demo_set, demo_tcp, session list) conc" where
  "demo_conc_polled = demo_conc\<lparr>cc_at := AtSessions, cc_shared := fst demo_polled, cc_accepted := snd demo_polled\<rparr>"

lemma demo_forward: "forward_egress demo_send pkts ch = (True, ch @ pkts)"
  by (induction pkts arbitrary: ch) (simp_all add: demo_send_def)

lemma demo_conc_polled_reachable: "conc_reachable demo demo_wire demo_accept demo_conc_polled"
proof (rule runner_reach [OF demo_conc_start])
  let ?R = "(runner_step demo demo_wire demo_accept)\<^sup>*\<^sup>*"
  have delay: "next_poll_delay demo 0 demo_started = (fst (next_poll_delay demo 0 demo_started), demo_started)"
    by code_simp
  obtain out where poll: "poll_locked demo demo_wire demo_ord 5 demo_queued = Some (fst demo_polled, snd demo_polled, out)"
    using demo_poll_locked by blast
  let ?d = "sleep_for (fst (next_poll_delay demo 0 demo_started))"
  have "?R demo_conc (demo_conc\<lparr>cc_at := AtSelect ?d\<rparr>)"
    using runner_step.delay [of demo_conc demo 0 _ demo_started demo_wire demo_accept] delay
    by (auto simp: demo_conc_def intro!: r_into_rtranclp)
  also have "?R (demo_conc\<lparr>cc_at := AtSelect ?d\<rparr>) (demo_conc\<lparr>cc_at := AtDrain\<rparr>)"
    using runner_step.notified [of "demo_conc\<lparr>cc_at := AtSelect ?d\<rparr>" ?d demo demo_wire demo_accept]
    by (simp add: r_into_rtranclp)
  also have "?R (demo_conc\<lparr>cc_at := AtDrain\<rparr>) (demo_conc\<lparr>cc_at := AtDrain, cc_shared := demo_queued\<rparr>)"
    using ingress_alone [of "demo_conc\<lparr>cc_at := AtDrain\<rparr>" demo demo_wire demo_accept "[demo_syn, demo_datagram]"]
    by (simp add: demo_conc_def demo_queued_def)
  also have "?R (demo_conc\<lparr>cc_at := AtDrain, cc_shared := demo_queued\<rparr>) (demo_conc\<lparr>cc_at := AtClear, cc_shared := demo_queued\<rparr>)"
    using runner_step.drained [of "demo_conc\<lparr>cc_at := AtDrain, cc_shared := demo_queued\<rparr>" demo demo_wire demo_accept]
    by (simp add: demo_conc_def r_into_rtranclp)
  also have "?R (demo_conc\<lparr>cc_at := AtClear, cc_shared := demo_queued\<rparr>) (demo_conc\<lparr>cc_at := AtPoll, cc_shared := demo_queued\<rparr>)"
    using runner_step.cleared [of "demo_conc\<lparr>cc_at := AtClear, cc_shared := demo_queued\<rparr>" demo demo_wire demo_accept]
    by (simp add: demo_conc_def r_into_rtranclp)
  also have "?R (demo_conc\<lparr>cc_at := AtPoll, cc_shared := demo_queued\<rparr>)
      (demo_conc\<lparr>cc_at := AtEgress, cc_shared := fst demo_polled, cc_accepted := snd demo_polled, cc_egress := out\<rparr>)"
    using runner_step.poll [of "demo_conc\<lparr>cc_at := AtPoll, cc_shared := demo_queued\<rparr>" demo demo_wire demo_ord 5 _ _ _ demo_accept]
      poll by (auto simp: demo_conc_def intro!: r_into_rtranclp)
  also have "?R (demo_conc\<lparr>cc_at := AtEgress, cc_shared := fst demo_polled, cc_accepted := snd demo_polled, cc_egress := out\<rparr>)
      demo_conc_polled"
    using egress_alone [of "demo_conc\<lparr>cc_at := AtEgress, cc_shared := fst demo_polled, cc_accepted := snd demo_polled,
      cc_egress := out\<rparr>" demo_send "[]" True out demo demo_wire demo_accept]
    by (simp add: demo_forward demo_conc_def demo_conc_polled_def)
  finally show "?R demo_conc demo_conc_polled" .
qed

theorem conc_refines_system_witness:
  "\<exists>live. reachable demo demo_wire (fst demo_polled, live) \<and>
    mset live = {#SessionUdp demo_session, SessionTcp demo_stream#}"
  using conc_refines_system [OF demo_accept_laws demo_conc_polled_reachable]
  by (simp add: demo_conc_polled_def demo_conc_def demo_accept_def demo_polled_live)

text \<open>
  Neither the runner nor the application ever panics or gets stuck, however they interleave: in every
  state they reach the runner has a next step unless it has stopped, a poll returns whatever the clock
  and the iteration order of the maps are, and every operation on a session that exists, its drop
  included, returns.
\<close>

lemma conc_never_stuck:
  assumes "accept_laws C" and "engine_laws S W" and "conc_reachable S W C c"
  shows "(cc_at c = AtStopped \<or> (\<exists>c'. runner_step S W C c c')) \<and>
    (\<forall>ord now. \<exists>r. poll_locked S W ord now (cc_shared c) = Some r) \<and>
    (session_use a \<and> enabled a (conc_live C c) \<longrightarrow> (\<exists>w. perform S W a (cc_shared c, conc_live C c) = Some w))"
proof (intro conjI allI impI)
  show "cc_at c = AtStopped \<or> (\<exists>c'. runner_step S W C c c')" using runner_can_step [OF assms] by blast
  show "\<exists>r. poll_locked S W ord now (cc_shared c) = Some r" for ord now by (rule conc_poll [OF assms])
  assume use: "session_use a \<and> enabled a (conc_live C c)"
  obtain live where live: "reachable S W (cc_shared c, live)" "mset live = mset (conc_live C c)"
    by (rule conc_world [OF assms(1,3)])
  have "set live = set (conc_live C c)" using live(2) by (rule mset_eq_setD)
  then have "enabled a live" using use by (cases a) auto
  from perform_good [OF assms(2) _ this] reachable_good [OF assms(2) live(1)]
  obtain w where "perform S W a (cc_shared c, live) = Some w" by (fastforce simp: world_good_def)
  then show "\<exists>w. perform S W a (cc_shared c, conc_live C c) = Some w" by (cases a) auto
qed

section \<open>After the runner has stopped\<close>

lemma runner_stopped: "cc_at c = AtStopped \<Longrightarrow> \<not> runner_step S W C c c'"
  by (auto elim: runner_step.cases)

lemma stopped_step:
  assumes "conc_step S W C b c c'" and "cc_at c = AtStopped"
  shows "cc_at c' = AtStopped \<and> frozen (cc_shared c) (cc_shared c')"
  using assms(1)
proof cases
  case app_moves
  from app_moves(2) show ?thesis
  proof cases
    case (uses a sh' app')
    then show ?thesis using session_use_frozen assms(2) by fastforce
  qed (use assms(2) in \<open>simp_all add: frozen_refl\<close>)
qed (use runner_stopped assms(2) in blast)

text \<open>
  C23. Once the runner has stopped, which it does when the handle is dropped, the sessions that the application
  still holds are stranded: whatever the application does from then on, no packet enters or leaves a device, no datagram
  is added to any queue, no poll is ever reported as done, and a sender that waits for one cannot go on.
\<close>

theorem stopped_runner_strands_sessions:
  assumes "cc_at c = AtStopped" and "run (conc_step S W C) c bs c'"
  shows "cc_at c' = AtStopped \<and>
    map device (slots (sh_core (cc_shared c'))) = map device (slots (sh_core (cc_shared c))) \<and>
    (\<forall>i < length (sh_queues (cc_shared c)).
      \<exists>n. q_inner (sh_queues (cc_shared c') ! i) = drop n (q_inner (sh_queues (cc_shared c) ! i))) \<and>
    (\<nexists>s. send_step S us payload (SendAwait (poll_done (cc_shared c)), cc_shared c') s)"
proof -
  have "cc_at c' = AtStopped \<and> frozen (cc_shared c) (cc_shared c')"
    using assms(2,1)
  proof (induction rule: run.induct)
    case (run_cons b c c1 bs c2)
    from stopped_step [OF run_cons.hyps(1) run_cons.prems] run_cons.IH show ?case by (blast intro: frozen_trans)
  qed (simp add: frozen_refl)
  then show ?thesis by (auto simp: frozen_def taken_from_def elim: send_awaitE)
qed

theorem stopped_runner_strands_sessions_witness:
  "\<exists>c'. run (conc_step demo demo_wire demo_accept) (demo_conc\<lparr>cc_at := AtStopped\<rparr>) [TheApp] c' \<and>
    poll_notify (cc_shared c') = Suc (poll_notify demo_started) \<and>
    (\<nexists>s. send_step demo demo_session [3] (SendAwait (poll_done demo_started), cc_shared c') s)"
proof -
  let ?c = "demo_conc\<lparr>cc_at := AtStopped\<rparr>"
  let ?c' = "?c\<lparr>cc_shared := notify_poll (cc_shared ?c)\<rparr>"
  have r: "run (conc_step demo demo_wire demo_accept) ?c [TheApp] ?c'"
    by (rule run_one [where step = "conc_step demo demo_wire demo_accept"]) (intro app_moves injects)
  from stopped_runner_strands_sessions [OF _ r, of demo_session "[3]"] r show ?thesis
    by (intro exI [of _ ?c']) (simp add: demo_conc_def notify_poll_def)
qed

end
