(* ===== verification/Conc_Flows.thy ===== *)
theory Conc_Flows
  imports Session_End Concurrency_Properties
begin

text \<open>
  The two refinements composed: the runner and the application, interleaved at every point where no lock is
  held, implement the table of connections and flows. What is plain of the table holds of the program.
\<close>

lemmas conc_flows_simulation = forward_simulation_comp [OF conc.forward_simulation_axioms flow_table.forward_simulation_axioms]

interpretation conc_flows: forward_simulation "conc_started S C" "conc_step S W C" no_flows flows_step
    "(\<lambda>c w. accept_laws C \<longrightarrow> conc_match C c w) OO
      (\<lambda>w f. engine_laws S W \<longrightarrow> world_good S w \<and> f = flows_of (fst w))"
  for S :: "('i, 's, 't, 'u, 'x) smoltcp_scheme" and W :: wire and C :: "('a, 'y) accept_channel_scheme"
  by (rule conc_flows_simulation)

text \<open>Along every interleaving the tables change as the abstract machine allows.\<close>

lemma conc_run_flows:
  assumes "accept_laws C" and "engine_laws S W" and "conc_reachable S W C c" and "run (conc_step S W C) c bs c'"
  shows "\<exists>as. run flows_step (flows_of (cc_shared c)) as (flows_of (cc_shared c'))"
proof -
  obtain live where live: "reachable S W (cc_shared c, live)" "mset live = mset (conc_live C c)"
    by (rule conc_world [OF assms(1,3)])
  let ?w = "(cc_shared c, live)"
  have "conc_match C c ?w" using live(2) by (simp add: conc_match_def)
  moreover have "world_good S ?w" using reachable_good [OF assms(2) live(1)] by (simp add: world_good_def)
  ultimately have "((\<lambda>c w. accept_laws C \<longrightarrow> conc_match C c w) OO
      (\<lambda>w f. engine_laws S W \<longrightarrow> world_good S w \<and> f = flows_of (fst w))) c (flows_of (cc_shared c))"
    by (intro relcomppI [of _ c ?w]) simp_all
  from conc_flows.run_match [OF assms(4) this] obtain as f w where "run flows_step (flows_of (cc_shared c)) as f"
    "conc_match C c' w" "f = flows_of (fst w)" using assms(1,2) by blast
  then show ?thesis by (auto simp: conc_match_def)
qed

text \<open>In particular a flow never gets a queue back that it has lost, while the runner and the application run.\<close>

lemma conc_queue_gone:
  assumes "accept_laws C" and "engine_laws S W" and "conc_reachable S W C c" and "run (conc_step S W C) c bs c'"
    and "q < length (sh_queues (cc_shared c))"
    and "map_option ue_queue (hm_get (mgr_udp (manager (sh_core (cc_shared c)))) k) \<noteq> Some q"
  shows "map_option ue_queue (hm_get (mgr_udp (manager (sh_core (cc_shared c')))) k) \<noteq> Some q"
proof -
  obtain as where "run flows_step (flows_of (cc_shared c)) as (flows_of (cc_shared c'))"
    using conc_run_flows [OF assms(1-4)] by blast
  from flows_queue_gone [OF this, of q k, unfolded flows_of_view, OF assms(5,6)] show ?thesis .
qed

text \<open>And the queue of a session that has ended is only drained, by the application.\<close>

lemma conc_ended_queue:
  assumes "accept_laws C" and "engine_laws S W" and "conc_reachable S W C c" and "run (conc_step S W C) c bs c'"
    and "q < length (sh_queues (cc_shared c))" and "is_closed (sh_queues (cc_shared c) ! q)"
  shows "taken_from (sh_queues (cc_shared c) ! q) (sh_queues (cc_shared c') ! q)"
proof -
  obtain live where live: "reachable S W (cc_shared c, live)" "mset live = mset (conc_live C c)"
    by (rule conc_world [OF assms(1,3)])
  let ?w = "(cc_shared c, live)"
  have good: "sh_good S 0 live (cc_shared c)" using reachable_good [OF assms(2) live(1)] by simp
  have "accept_laws C \<longrightarrow> conc_match C c ?w" using live(2) by (simp add: conc_match_def)
  from conc.run_match [OF assms(4) this] obtain as w' where w': "run (step S W) ?w as w'" "fst w' = cc_shared c'"
    using assms(1) by (auto simp: conc_match_def)
  from run_detached [OF assms(2) w'(1)] closed_detached [OF goodD(4) [OF good] assms(5,6)] good
  show ?thesis using w'(2) by (fastforce simp: world_good_def dest: detachedD(2))
qed

end
