(* ===== verification/Progress_Interface.thy ===== *)
theory Progress_Interface
  imports Netstack_Prelude
begin

text \<open>
  What it means that a system must reach a goal, whatever choices it makes on the way: as long as the goal is
  not reached there is a next step, and no sequence of steps avoids the goal forever. A rank that every step
  decreases is enough.
\<close>

inductive must_reach :: "('s \<Rightarrow> 's \<Rightarrow> bool) \<Rightarrow> ('s \<Rightarrow> bool) \<Rightarrow> 's \<Rightarrow> bool"
  for step :: "'s \<Rightarrow> 's \<Rightarrow> bool" and goal :: "'s \<Rightarrow> bool" where
  reached: "goal s \<Longrightarrow> must_reach step goal s"
| onwards: "step s s' \<Longrightarrow> (\<And>s'. step s s' \<Longrightarrow> must_reach step goal s') \<Longrightarrow> must_reach step goal s"

text \<open>In particular there is no infinite run that never meets the goal.\<close>

lemma must_reach_meets:
  assumes "must_reach step goal s" and "f 0 = s" and "\<And>i. step (f i) (f (Suc i))"
  shows "\<exists>i. goal (f i)"
  using assms
proof (induction arbitrary: f rule: must_reach.induct)
  case (reached s)
  then show ?case by blast
next
  case (onwards s s')
  have "step s (f 1)" using onwards.prems(1) onwards.prems(2) [of 0] by simp
  from onwards.IH [OF this, of "\<lambda>i. f (Suc i)"] onwards.prems(2) show ?case by auto
qed

locale ranked_progress =
  fixes step :: "'s \<Rightarrow> 's \<Rightarrow> bool"
    and goal :: "'s \<Rightarrow> bool"
    and inv :: "'s \<Rightarrow> bool"
    and rank :: "'s \<Rightarrow> nat \<times> nat"
  assumes next_step: "inv s \<Longrightarrow> \<not> goal s \<Longrightarrow> \<exists>s'. step s s'"
    and step_inv: "inv s \<Longrightarrow> step s s' \<Longrightarrow> inv s'"
    and step_rank: "inv s \<Longrightarrow> \<not> goal s \<Longrightarrow> step s s' \<Longrightarrow> (rank s', rank s) \<in> less_than <*lex*> less_than"
begin

lemma inv_reaches: "inv s \<Longrightarrow> must_reach step goal s"
proof (induction "rank s" arbitrary: s rule: wf_induct_rule [OF wf_lex_prod [OF wf_less_than wf_less_than]])
  case 1
  show ?case
  proof (cases "goal s")
    case False
    then obtain s' where "step s s'" using next_step 1(2) by blast
    then show ?thesis using 1 step_inv step_rank False by (blast intro: onwards)
  qed (rule reached)
qed

end

end
