(* ===== verification/Runner_Progress.thy ===== *)
theory Runner_Progress
  imports Concurrency_Properties Progress_Interface
begin

text \<open>
  Every turn of the runner's loop ends, whatever the application does meanwhile: between two steps of the runner
  the application may make any number of its own. The only loop of a turn that the runner does not bound itself is
  the one that takes the waiting packets; the number of packets it finds is a parameter.
\<close>

fun at_rest :: "run_place \<Rightarrow> bool" where
  "at_rest (AtSelect d) = True"
| "at_rest AtStopped = True"
| "at_rest _ = False"

text \<open>A step of the runner, after the application; \<open>n\<close> is how many packets \<open>try_recv\<close> will still find.\<close>

inductive turn_step ::
    "('i, 's, 't, 'u, 'x) smoltcp_scheme \<Rightarrow> wire \<Rightarrow> ('a, 'y) accept_channel_scheme \<Rightarrow>
     nat \<times> ('i, 's, 't, 'a) conc \<Rightarrow> nat \<times> ('i, 's, 't, 'a) conc \<Rightarrow> bool"
  for S :: "('i, 's, 't, 'u, 'x) smoltcp_scheme" and W :: wire and C :: "('a, 'y) accept_channel_scheme" where
  takes: "(app_step S W C)\<^sup>*\<^sup>* c c1 \<Longrightarrow> runner_step S W C c1 c2 \<Longrightarrow> cc_at c1 = AtDrain \<Longrightarrow> cc_at c2 \<noteq> AtClear \<Longrightarrow>
    turn_step S W C (Suc n, c) (n, c2)"
| works: "(app_step S W C)\<^sup>*\<^sup>* c c1 \<Longrightarrow> runner_step S W C c1 c2 \<Longrightarrow> \<not> (cc_at c1 = AtDrain \<and> cc_at c2 \<noteq> AtClear) \<Longrightarrow>
    turn_step S W C (n, c) (n, c2)"

text \<open>How much of the turn is left: first by the place, then by what is waiting there.\<close>

fun turn_rank :: "nat \<times> ('i, 's, 't, 'a) conc \<Rightarrow> nat \<times> nat" where
  "turn_rank (n, c) =
     (case cc_at c of
        AtQueue pkt \<Rightarrow> (9, 2 * n + 1)
      | AtDrain \<Rightarrow> (9, 2 * n)
      | AtClear \<Rightarrow> (8, length (cc_accepted c))
      | AtPoll \<Rightarrow> (7, 0)
      | AtEgress \<Rightarrow> (6, length (cc_egress c))
      | AtSessions \<Rightarrow> (5, 2 * length (cc_accepted c))
      | AtDrop s \<Rightarrow> (5, 2 * length (cc_accepted c) + 1)
      | AtDone \<Rightarrow> (4, 0)
      | AtDelay \<Rightarrow> (3, 0)
      | AtStopping \<Rightarrow> (2, length (cc_accepted c))
      | AtSelect d \<Rightarrow> (0, 0)
      | AtStopped \<Rightarrow> (0, 0))"

text \<open>The application does not touch what the runner works on.\<close>

lemma app_steps_frame:
  assumes "(app_step S W C)\<^sup>*\<^sup>* c c'"
  shows "cc_at c' = cc_at c \<and> cc_accepted c' = cc_accepted c \<and> cc_egress c' = cc_egress c"
  using assms
proof (induction rule: rtranclp_induct)
  case (step c1 c2)
  from step.hyps(2) show ?case using step.IH by cases simp_all
qed simp

lemma app_steps_reachable:
  assumes "(app_step S W C)\<^sup>*\<^sup>* c c'" and "conc_reachable S W C c"
  shows "conc_reachable S W C c'"
  using assms by (induction rule: rtranclp_induct) (auto intro: reach_step app_moves)

lemma turn_rank_cong:
  "cc_at c' = cc_at c \<Longrightarrow> cc_accepted c' = cc_accepted c \<Longrightarrow> cc_egress c' = cc_egress c \<Longrightarrow>
    turn_rank (n, c') = turn_rank (n, c)"
  by (simp split: run_place.split)

lemma runner_step_rank:
  assumes "runner_step S W C c c'" and "\<not> at_rest (cc_at c)" and "\<not> (cc_at c = AtDrain \<and> cc_at c' \<noteq> AtClear)"
  shows "(turn_rank (n, c'), turn_rank (n, c)) \<in> less_than <*lex*> less_than"
  using assms by cases auto

lemma runner_take_rank:
  assumes "runner_step S W C c c'" and "cc_at c = AtDrain" and "cc_at c' \<noteq> AtClear"
  shows "(turn_rank (n, c'), turn_rank (Suc n, c)) \<in> less_than <*lex*> less_than"
  using assms by cases auto

lemma turn_step_reachable:
  assumes "turn_step S W C s s'" and "conc_reachable S W C (snd s)"
  shows "conc_reachable S W C (snd s')"
  using assms by cases (auto dest: app_steps_reachable intro: reach_step runner_moves)

lemma turn_step_rank:
  assumes "turn_step S W C s s'" and "\<not> at_rest (cc_at (snd s))"
  shows "(turn_rank s', turn_rank s) \<in> less_than <*lex*> less_than"
  using assms(1)
proof cases
  case (takes c c1 c2 n)
  note frame = app_steps_frame [OF takes(3)]
  have "turn_rank (Suc n, c1) = turn_rank (Suc n, c)" using frame by (intro turn_rank_cong) simp_all
  then show ?thesis using runner_take_rank [OF takes(4-6), of n] takes(1,2) by simp
next
  case (works c c1 c2 n)
  note frame = app_steps_frame [OF works(3)]
  have "turn_rank (n, c1) = turn_rank (n, c)" using frame by (intro turn_rank_cong) simp_all
  moreover have "\<not> at_rest (cc_at c1)" using assms(2) works(1) frame by simp
  ultimately show ?thesis using runner_step_rank [OF works(4) _ works(5), of n] works(1,2) by simp
qed

text \<open>Where the runner could take a packet but there is none, it goes on.\<close>

lemma turn_continues:
  assumes "accept_laws C" and "engine_laws S W" and "conc_reachable S W C c" and "\<not> at_rest (cc_at c)"
  shows "\<exists>s'. turn_step S W C (n, c) s'"
proof (cases "cc_at c = AtDrain")
  case True
  then have "runner_step S W C c (c\<lparr>cc_at := AtClear\<rparr>)" by (rule runner_step.drained)
  then show ?thesis using works [of S W C c c "c\<lparr>cc_at := AtClear\<rparr>" n] by auto
next
  case False
  have "cc_at c \<noteq> AtStopped" using assms(4) by auto
  then obtain c' where "runner_step S W C c c'" using runner_can_step [OF assms(1-3)] by blast
  then show ?thesis using works [of S W C c c c' n] False by blast
qed

interpretation runner_turn: ranked_progress "turn_step S W C" "\<lambda>s. at_rest (cc_at (snd s))"
    "\<lambda>s. accept_laws C \<and> engine_laws S W \<and> conc_reachable S W C (snd s)" turn_rank
  for S :: "('i, 's, 't, 'u, 'x) smoltcp_scheme" and W :: wire and C :: "('a, 'y) accept_channel_scheme"
proof
  show "\<exists>s'. turn_step S W C s s'"
    if "accept_laws C \<and> engine_laws S W \<and> conc_reachable S W C (snd s)" "\<not> at_rest (cc_at (snd s))" for s
    using turn_continues [of C S W "snd s" "fst s"] that by simp
qed (auto dest: turn_step_reachable turn_step_rank)



end
