(* ===== verification/Tun_Proxy.thy ===== *)
theory Tun_Proxy
  imports System
begin

text \<open>
  \<open>src/examples/tun_proxy.rs\<close>: the transparent proxy that the repository ships as an example. The TUN device, the
  routing table and the outbound sockets belong to the operating system; what they deliver arrives here as
  events, and what they are given is recorded. Modelled are the stack the proxy configures, the routes it
  installs, the event loop, the two relays, and \<open>main\<close> from the set-up to the teardown.
\<close>

section \<open>Configuration\<close>

definition tun_name :: string where
  "tun_name = ''tun0''"

definition tun_ip :: "32 word" where
  "tun_ip = 0x0A000002"

definition tun_prefix :: u8 where
  "tun_prefix = 24"

definition tun_mtu :: u16 where
  "tun_mtu = 1500"

definition physical_iface :: string where
  "physical_iface = ''wlan0''"

definition physical_ip :: "32 word" where
  "physical_ip = 0xC0A80069"

definition tun_interface_config :: interface_config where
  "tun_interface_config =
     gateway_ipv6 0x00FD00000000000000000000000000FF
       (gateway_ipv4 tun_ip
         (ic_ipv6 0x00FD0000000000000000000000000001 64
           (ic_ipv4 0x0A000003 24 (interface_config_new tun_ip tun_prefix))))"

definition tun_proxy_builder :: "netstack_error + netstack_builder" where
  "tun_proxy_builder =
     add_interface (InterfaceId 0) tun_interface_config
       (nb_mimalloc_purge_delay 100000000
         (nb_max_buffer_bytes None
           (nb_udp_buffer 16 (16 * 1024)
             (nb_log_level LogDebug
               (nb_channel_capacity 2048
                 (nb_udp_max_sessions 4096
                   (nb_udp_session_timeout (duration_from_secs 30)
                     (nb_tcp_max_connections 4096
                       (nb_tcp_buffer_size (16 * 1024)
                         (nb_mtu (ucast tun_mtu) netstack_builder_new))))))))))"

text \<open>The stack of the proxy is one the theorems of this development apply to.\<close>

lemma tun_proxy_started:
  assumes "build S seed now (\<lambda>_. ((), ())) (\<lambda>_. ((), ())) ((), ()) b = Some (ru, irx, h, erx)"
    and "tun_proxy_builder = Inr b"
  shows "started S (ru_shared ru, [])"
proof (rule started.intros [OF _ _ assms(1)])
  note setters = nb_mtu_def nb_tcp_buffer_size_def nb_tcp_max_connections_def nb_udp_session_timeout_def
    nb_udp_max_sessions_def nb_channel_capacity_def nb_log_level_def nb_udp_buffer_def nb_max_buffer_bytes_def
    nb_mimalloc_purge_delay_def netstack_builder_new_def
  show "builder_wf b" by (rule builder_wf_add [OF _ assms(2) [unfolded tun_proxy_builder_def]]) simp
  show "config_ok (nb_config b)"
    using assms(2)
    by (auto simp: tun_proxy_builder_def add_interface_result setters netstack_config_default_def
        config_ok_def tcp_cost_def udp_cost_def tun_mtu_def)
qed

lemma tun_proxy_builder_ok: "\<exists>b. tun_proxy_builder = Inr b \<and> map fst (nb_interfaces b) = [InterfaceId 0]"
  by (simp add: tun_proxy_builder_def add_interface_result nb_mtu_def nb_tcp_buffer_size_def
      nb_tcp_max_connections_def nb_udp_session_timeout_def nb_udp_max_sessions_def nb_channel_capacity_def
      nb_log_level_def nb_udp_buffer_def nb_max_buffer_bytes_def nb_mimalloc_purge_delay_def netstack_builder_new_def)

section \<open>Calls into the operating system\<close>

text \<open>
  The calls whose failure the proxy propagates with \<open>?\<close>. \<open>answer\<close> says for each whether it fails; \<open>try_calls\<close> makes
  them in order up to the first failure and returns those that succeeded.
\<close>

type_synonym route = "32 word \<times> nat"

datatype os_call =
    BuildDevice string u16 "32 word" u8
  | NameToIndex string
  | RouteHandleNew
  | AddRoute route
  | DeleteRoute route
  | TcpSocketNew
  | UdpSocketBind "32 word" u16
  | BindDevice string
  | BindAddr "32 word" u16
  | SetKeepalive bool
  | Connect socket_addr
  | CopyBidirectional

primrec try_calls :: "(os_call \<Rightarrow> 'e option) \<Rightarrow> os_call list \<Rightarrow> os_call list \<times> ('e + unit)" where
  "try_calls answer [] = ([], Inr ())"
| "try_calls answer (c # cs) =
     (case answer c of
        Some e \<Rightarrow> ([], Inl e)
      | None \<Rightarrow> (let (made, r) = try_calls answer cs in (c # made, r)))"

lemma try_calls_ok: "snd (try_calls answer cs) = Inr () \<longleftrightarrow> (\<forall>c \<in> set cs. answer c = None)"
  by (induction cs) (auto simp: split_beta split: option.split)

lemma try_calls_all: "\<forall>c \<in> set cs. answer c = None \<Longrightarrow> try_calls answer cs = (cs, Inr ())"
  by (induction cs) auto

lemma try_calls_error:
  "snd (try_calls answer cs) = Inl e \<Longrightarrow>
    \<exists>c rest. cs = fst (try_calls answer cs) @ c # rest \<and> answer c = Some e"
  by (induction cs) (auto simp: split_beta split: option.splits)

section \<open>Routes\<close>

text \<open>A route is a destination and a prefix length; it covers the addresses that agree on the prefix.\<close>

definition tun_routes :: "route list" where
  "tun_routes = [(0, 1), (0x80000000, 1)]"

definition route_covers :: "route \<Rightarrow> 32 word \<Rightarrow> bool" where
  "route_covers = (\<lambda>(dst, prefix) a. drop_bit (32 - prefix) a = drop_bit (32 - prefix) dst)"

text \<open>The two routes capture the whole address space, each address once.\<close>

lemma tun_routes_capture_all: "length (filter (\<lambda>r. route_covers r a) tun_routes) = 1"
proof -
  have "unat (drop_bit 31 a) = unat a div 2 ^ 31" by (simp add: drop_bit_eq_div unat_div)
  moreover have "unat a < 2 ^ 32" using unsigned_less [of a] by simp
  ultimately have "unat (drop_bit 31 a) < 2" by (simp add: less_mult_imp_div_less)
  then have "unat (drop_bit 31 a) = 0 \<or> unat (drop_bit 31 a) = 1" by linarith
  moreover have "drop_bit 31 (0x80000000 :: 32 word) = 1" by (simp add: drop_bit_eq_div word_eq_iff_unsigned)
  ultimately show ?thesis
    by (auto simp: tun_routes_def route_covers_def word_unat_eq_iff)
qed

section \<open>The event loop\<close>

text \<open>
  What \<open>select!\<close> delivers: a read from the TUN device, a packet of the stack with the question whether writing it
  to the device succeeds, a session, or the signal. \<open>None\<close> stands for a channel that is closed.
\<close>

datatype proxy_event =
    TunRead "bytes option"
  | Egress "egress_packet option" bool
  | Accepted "session option"
  | CtrlC

record ('i, 's, 't, 'q) proxy =
  px_shared :: "('i, 's, 't) shared"
  px_ingress :: 'q
  px_written :: "bytes list"
  px_relays :: "session list"

text \<open>One turn: \<open>None\<close> is the panic of \<open>expect\<close>; the flag says whether the loop goes on.\<close>

fun proxy_step ::
    "('q \<Rightarrow> ingress_packet \<Rightarrow> try_send_error + 'q) \<Rightarrow> proxy_event \<Rightarrow> ('i, 's, 't, 'q) proxy \<Rightarrow>
     (bool \<times> ('i, 's, 't, 'q) proxy) option" where
  "proxy_step try_send (TunRead (Some data)) px =
     (case send_ip_packet try_send (InterfaceId 0) data (px_shared px, px_ingress px) of
        (Inr _, sh, q) \<Rightarrow> Some (True, px\<lparr>px_shared := sh, px_ingress := q\<rparr>)
      | (Inl e, sh, q) \<Rightarrow> None)"
| "proxy_step try_send (TunRead None) px = Some (False, px)"
| "proxy_step try_send (Egress (Some pkt) ok) px =
     (if ok then Some (True, px\<lparr>px_written := px_written px @ [eg_data pkt]\<rparr>) else Some (False, px))"
| "proxy_step try_send (Egress None ok) px = Some (False, px)"
| "proxy_step try_send (Accepted (Some s)) px = Some (True, px\<lparr>px_relays := px_relays px @ [s]\<rparr>)"
| "proxy_step try_send (Accepted None) px = Some (False, px)"
| "proxy_step try_send CtrlC px = Some (False, px)"

text \<open>
  The proxy panics exactly when the stack refuses a packet, which the stack does under load: a full ingress
  channel is reported as an error the caller should retry, and the proxy expects success.
\<close>

lemma proxy_panics_iff:
  assumes "InterfaceId 0 \<in> set (interface_ids (px_shared px))"
  shows "proxy_step try_send ev px = None \<longleftrightarrow>
    (\<exists>data e. ev = TunRead (Some data) \<and>
      try_send (px_ingress px) \<lparr>ig_interface = InterfaceId 0, ig_data = data\<rparr> = Inl e)"
proof -
  have "core_slot (sh_core (px_shared px)) (InterfaceId 0) \<noteq> None"
    using assms core_slot_interface_ids by blast
  then show ?thesis
    by (cases "(try_send, ev, px)" rule: proxy_step.cases)
      (auto simp: send_ip_packet_def Let_def split: sum.split try_send_error.split)
qed

fun proxy_run ::
    "('q \<Rightarrow> ingress_packet \<Rightarrow> try_send_error + 'q) \<Rightarrow> proxy_event list \<Rightarrow> ('i, 's, 't, 'q) proxy \<Rightarrow>
     (bool \<times> ('i, 's, 't, 'q) proxy) option" where
  "proxy_run try_send [] px = Some (True, px)"
| "proxy_run try_send (ev # evs) px =
     (case proxy_step try_send ev px of
        None \<Rightarrow> None
      | Some (go, px) \<Rightarrow> if go then proxy_run try_send evs px else Some (False, px))"

text \<open>While the loop runs, every packet of the stack is written in order and every session gets a relay.\<close>

lemma proxy_run_forwards:
  assumes "proxy_run try_send evs px = Some (True, px')"
  shows "px_written px' = px_written px @ [eg_data pkt. Egress (Some pkt) True \<leftarrow> evs] \<and>
    px_relays px' = px_relays px @ [s. Accepted (Some s) \<leftarrow> evs]"
  using assms
proof (induction evs arbitrary: px)
  case (Cons ev evs)
  obtain px1 where one: "proxy_step try_send ev px = Some (True, px1)" "proxy_run try_send evs px1 = Some (True, px')"
    using Cons.prems by (auto split: option.splits if_splits)
  have "px_written px1 = px_written px @ [eg_data pkt. Egress (Some pkt) True \<leftarrow> [ev]] \<and>
      px_relays px1 = px_relays px @ [s. Accepted (Some s) \<leftarrow> [ev]]"
    using one(1) by (cases "(try_send, ev, px)" rule: proxy_step.cases) (auto split: prod.splits sum.splits if_splits)
  then show ?case using Cons.IH [OF one(2)] by simp
qed simp

section \<open>The relays\<close>

text \<open>Only IPv4 destinations are relayed.\<close>

fun relay_supported :: "socket_addr \<Rightarrow> bool" where
  "relay_supported (SocketAddrV4 a port) = True"
| "relay_supported (SocketAddrV6 a port flow scope) = False"

text \<open>
  The TCP relay: an outbound socket bound to the physical interface, then copying in both directions until
  both are done. An IPv6 destination ends it without an error.
\<close>

definition relay_tcp_calls :: "socket_addr \<Rightarrow> os_call list" where
  "relay_tcp_calls dst =
     [TcpSocketNew, BindDevice physical_iface, BindAddr physical_ip 0, SetKeepalive True, Connect dst, CopyBidirectional]"

definition relay_tcp :: "(os_call \<Rightarrow> 'e option) \<Rightarrow> way_tcp_stream \<Rightarrow> os_call list \<times> ('e + unit)" where
  "relay_tcp answer st =
     (let dst = way_tcp_stream_dst_addr st
      in if relay_supported dst then try_calls answer (relay_tcp_calls dst) else ([], Inr ()))"

text \<open>Traffic never re-enters the TUN device: nothing is connected before the socket is bound to the physical interface.\<close>

lemma relay_tcp_bound_first:
  assumes "Connect dst \<in> set (fst (relay_tcp answer st))"
  shows "relay_supported dst \<and> dst = way_tcp_stream_dst_addr st \<and>
    take 3 (fst (relay_tcp answer st)) = [TcpSocketNew, BindDevice physical_iface, BindAddr physical_ip 0]"
  using assms
  by (auto simp: relay_tcp_def relay_tcp_calls_def Let_def split_beta split: if_splits option.splits)

text \<open>
  What the relay's \<open>select!\<close> delivers: the result of \<open>recv\<close> with the question whether sending it on succeeds, or a
  datagram from the network with the result of \<open>send\<close>, or an error of the socket.
\<close>

datatype relay_event =
    FromApp "bytes option" bool
  | FromNet bytes "netstack_error + unit"
  | NetError

datatype relay_control = RelayContinue | RelayReturnOk | RelayReturnErr

record relay =
  rl_to_net :: "bytes list"
  rl_to_app :: "bytes list"

fun relay_udp_step :: "relay_event \<Rightarrow> relay \<Rightarrow> relay_control \<times> relay" where
  "relay_udp_step (FromApp (Some dgram) ok) r =
     (if ok then (RelayContinue, r\<lparr>rl_to_net := rl_to_net r @ [dgram]\<rparr>) else (RelayReturnOk, r))"
| "relay_udp_step (FromApp None ok) r = (RelayReturnOk, r)"
| "relay_udp_step (FromNet payload (Inr _)) r = (RelayContinue, r\<lparr>rl_to_app := rl_to_app r @ [payload]\<rparr>)"
| "relay_udp_step (FromNet payload (Inl e)) r = (RelayReturnOk, r)"
| "relay_udp_step NetError r = (RelayReturnErr, r)"

text \<open>
  The UDP relay: the outbound socket, then the loop over what \<open>select!\<close> delivers. \<open>RelayContinue\<close> is a relay that
  is still running when the events end.
\<close>

fun relay_udp_loop :: "relay_event list \<Rightarrow> relay \<Rightarrow> relay_control \<times> relay" where
  "relay_udp_loop [] r = (RelayContinue, r)"
| "relay_udp_loop (ev # evs) r =
     (case relay_udp_step ev r of
        (RelayContinue, r) \<Rightarrow> relay_udp_loop evs r
      | (exit, r) \<Rightarrow> (exit, r))"

definition relay_udp ::
    "(os_call \<Rightarrow> 'e option) \<Rightarrow> way_udp_session \<Rightarrow> relay_event list \<Rightarrow> relay_control \<times> relay" where
  "relay_udp answer us evs =
     (let none = \<lparr>rl_to_net = [], rl_to_app = []\<rparr>
      in if \<not> relay_supported (way_udp_session_dst_addr us) then (RelayReturnOk, none)
         else case snd (try_calls answer [UdpSocketBind physical_ip 0, BindDevice physical_iface]) of
                Inl e \<Rightarrow> (RelayReturnErr, none)
              | Inr _ \<Rightarrow> relay_udp_loop evs none)"

text \<open>While it runs, the relay passes on every datagram once, in order, in both directions.\<close>

lemma relay_udp_loop_forwards:
  "relay_udp_loop evs r = (RelayContinue, r') \<Longrightarrow>
    rl_to_net r' = rl_to_net r @ [d. FromApp (Some d) True \<leftarrow> evs] \<and>
    rl_to_app r' = rl_to_app r @ [d. FromNet d (Inr u) \<leftarrow> evs]"
proof (induction evs arbitrary: r)
  case (Cons ev evs)
  obtain r1 where one: "relay_udp_step ev r = (RelayContinue, r1)" "relay_udp_loop evs r1 = (RelayContinue, r')"
    using Cons.prems by (auto split: prod.splits relay_control.splits)
  have "rl_to_net r1 = rl_to_net r @ [d. FromApp (Some d) True \<leftarrow> [ev]] \<and>
      rl_to_app r1 = rl_to_app r @ [d. FromNet d (Inr u) \<leftarrow> [ev]]"
    using one(1) by (cases "(ev, r)" rule: relay_udp_step.cases) (auto split: if_splits)
  then show ?case using Cons.IH [OF one(2)] by simp
qed simp

text \<open>As the relay relies on: \<open>send\<close> never reports a full buffer.\<close>

lemma udp_send_never_full:
  assumes "udp_send_poll S us payload sh = Some (PollReady (Inl e), sh')"
  shows "\<not> is_udp_buffer_full e"
proof -
  obtain outcome sh0 where tried: "udp_try_send S us payload (sk_src (us_key us)) sh = Some (outcome, sh0)"
    using assms by (auto simp: udp_send_poll_def bind_eq_Some_conv)
  then have "outcome = SendFailed e"
    using assms by (cases outcome) (auto simp: udp_send_poll_def)
  show ?thesis
  proof (cases "is_closed (sh_queues sh ! us_queue us) \<or> core_slot (sh_core sh) (us_interface us) = None")
    case True
    then show ?thesis using tried \<open>outcome = SendFailed e\<close> by (auto simp: udp_try_send_def split: if_splits)
  next
    case False
    then obtain slot u where slot: "core_slot (sh_core sh) (us_interface us) = Some slot"
      "get_mut_udp S (sockets slot) (us_socket us) = Some u"
      using tried by (auto simp: udp_try_send_def bind_eq_Some_conv)
    obtain r u' where r: "udp_send_slice S u payload (sk_src (us_key us)) = (r, u')" by fastforce
    show ?thesis using tried False \<open>outcome = SendFailed e\<close>
      by (cases r) (auto simp: udp_try_send_def slot r split: udp_send_error.splits)
  qed
qed

section \<open>Set-up and teardown\<close>

text \<open>
  A relay ends on its own between two turns of the loop, or because \<open>abort_all\<close> cancels it; either way the task and
  with it the session is dropped.
\<close>

definition relay_ends ::
    "('i, 's, 't, 'u, 'x) smoltcp_scheme \<Rightarrow> session \<Rightarrow> ('i, 's, 't, 'q) proxy \<Rightarrow> ('i, 's, 't, 'q) proxy option" where
  "relay_ends S s px =
     map_option (\<lambda>sh. px\<lparr>px_shared := sh, px_relays := remove1 s (px_relays px)\<rparr>) (session_drop S s (px_shared px))"

definition abort_all ::
    "('i, 's, 't, 'u, 'x) smoltcp_scheme \<Rightarrow> ('i, 's, 't, 'q) proxy \<Rightarrow> ('i, 's, 't, 'q) proxy option" where
  "abort_all S px = for_each (relay_ends S) (px_relays px) px"

text \<open>Cancelling the relays leaves none behind and does not panic.\<close>

lemma abort_relays:
  assumes "socket_set_laws S" and "sh_good S 0 (px_relays px @ rest) (px_shared px)"
  shows "\<exists>sh. abort_all S px = Some (px\<lparr>px_shared := sh, px_relays := []\<rparr>) \<and> sh_good S 0 rest sh"
proof -
  have "\<exists>sh. for_each (relay_ends S) ds px = Some (px\<lparr>px_shared := sh, px_relays := []\<rparr>) \<and> sh_good S 0 rest sh"
    if "px_relays px = ds" "sh_good S 0 (px_relays px @ rest) (px_shared px)" for ds and px :: "('a, 'b, 'c, 'q) proxy"
    using that
  proof (induction ds arbitrary: px)
    case Nil
    then show ?case by (cases px) auto
  next
    case (Cons s ds)
    obtain sh1 where drop: "session_drop S s (px_shared px) = Some sh1" "sh_good S 0 (ds @ rest) sh1"
      using session_drop_good [OF assms(1) Cons.prems(2), of s] Cons.prems(1) by auto
    let ?px = "px\<lparr>px_shared := sh1, px_relays := ds\<rparr>"
    have "relay_ends S s px = Some ?px" using drop(1) Cons.prems(1) by (simp add: relay_ends_def)
    then show ?case using Cons.IH [of ?px] drop(2) by simp
  qed
  then show ?thesis using assms(2) unfolding abort_all_def by blast
qed

text \<open>
  \<open>main\<close>: the device and the routes, the stack, the loop, the end of the relays, and the routes again. \<open>built\<close> is the
  outcome of building the stack, on which \<open>main\<close> calls \<open>unwrap\<close>. The result holds the calls that succeeded.
\<close>

datatype 'e proxy_exit = ExitOk | ExitErr 'e | ExitPanic | StillRunning

definition setup_calls :: "os_call list" where
  "setup_calls =
     [BuildDevice tun_name tun_mtu tun_ip tun_prefix, NameToIndex tun_name, RouteHandleNew] @ map AddRoute tun_routes"

definition teardown_calls :: "os_call list" where
  "teardown_calls = map DeleteRoute tun_routes"

definition tun_main ::
    "('i, 's, 't, 'u, 'x) smoltcp_scheme \<Rightarrow> (os_call \<Rightarrow> 'e option) \<Rightarrow> ('q \<Rightarrow> ingress_packet \<Rightarrow> try_send_error + 'q) \<Rightarrow> ('i, 's, 't, 'q) proxy option \<Rightarrow>
     proxy_event list \<Rightarrow> os_call list \<times> 'e proxy_exit" where
  "tun_main S answer try_send built evs =
     (case try_calls answer setup_calls of
        (made, Inl e) \<Rightarrow> (made, ExitErr e)
      | (made, Inr _) \<Rightarrow>
          (case Option.bind built (proxy_run try_send evs) of
             None \<Rightarrow> (made, ExitPanic)
           | Some (True, px) \<Rightarrow> (made, StillRunning)
           | Some (False, px) \<Rightarrow>
               (case abort_all S px of
                  None \<Rightarrow> (made, ExitPanic)
                | Some px \<Rightarrow>
                    (case try_calls answer teardown_calls of
                       (unmade, Inl e) \<Rightarrow> (made @ unmade, ExitErr e)
                     | (unmade, Inr _) \<Rightarrow> (made @ unmade, ExitOk)))))"

fun route_effect :: "os_call \<Rightarrow> route list \<Rightarrow> route list" where
  "route_effect (AddRoute r) rs = rs @ [r]"
| "route_effect (DeleteRoute r) rs = remove1 r rs"
| "route_effect _ rs = rs"

text \<open>
  The routes are in place whenever the loop runs, and gone when \<open>main\<close> returns without an error. On an error or a
  panic after the set-up some of them are left to the removal of the device.
\<close>

lemma tun_main_routes:
  "case tun_main S answer try_send built evs of
     (made, exit) \<Rightarrow>
       (exit = ExitOk \<longrightarrow> fold route_effect made [] = []) \<and>
       (exit = StillRunning \<or> exit = ExitPanic \<longrightarrow> fold route_effect made [] = tun_routes)"
proof -
  have set_up: "fold route_effect setup_calls [] = tun_routes" by (simp add: setup_calls_def tun_routes_def)
  have tear: "fold route_effect teardown_calls tun_routes = []" by (simp add: teardown_calls_def tun_routes_def)
  have all: "made = cs" if "try_calls answer cs = (made, Inr u)" for cs made u
    using that try_calls_ok [of answer cs] try_calls_all [of cs answer] by simp
  obtain made r where one: "try_calls answer setup_calls = (made, r)" by fastforce
  obtain unmade r' where two: "try_calls answer teardown_calls = (unmade, r')" by fastforce
  show ?thesis
  proof (cases r)
    case (Inr u)
    with one all [of setup_calls made] have made: "made = setup_calls" by simp
    show ?thesis using all [of teardown_calls unmade] set_up tear
      by (cases r') (auto simp: tun_main_def one Inr two made split: option.split bool.split)
  qed (simp add: tun_main_def one)
qed

end
