(* ===== verification/Stress_Test.thy ===== *)
theory Stress_Test
  imports System
begin

text \<open>
  \<open>src/examples/stress_test.rs\<close>: the rig of the load test. Modelled are the stack it configures, the in-memory
  device of the peer, the ports it uses, the shuttle that moves packets between peer and stack, the waiting
  and sending helpers, and the two echo relays, which are applications of the sessions. The peer's own TCP/IP
  engine is a parameter, and what other tasks do during a sleep is one. The scenarios, which script
  these parts and print timings, are left out but for their ports and their comparison of the echo.
\<close>

section \<open>Configuration\<close>

definition st_if :: u16 where
  "st_if = 0"

definition netstack_ip :: "32 word" where
  "netstack_ip = 0x0A000001"

definition netstack_prefix :: u8 where
  "netstack_prefix = 24"

definition st_tcp_buffer_size :: usize where
  "st_tcp_buffer_size = 1024 * 1024"

definition st_channel_capacity :: usize where
  "st_channel_capacity = push_bit 20 1"

definition udp_buffer_slots :: usize where
  "udp_buffer_slots = 16 * 1024"

definition stress_builder :: "netstack_error + netstack_builder" where
  "stress_builder =
     add_interface (InterfaceId st_if) (interface_config_new netstack_ip netstack_prefix)
       (nb_mimalloc_purge_delay 0
         (nb_udp_buffer udp_buffer_slots (udp_buffer_slots * 1400)
           (nb_channel_capacity st_channel_capacity
             (nb_tcp_buffer_size st_tcp_buffer_size netstack_builder_new))))"

lemmas stress_setters = nb_tcp_buffer_size_def nb_channel_capacity_def nb_udp_buffer_def
  nb_mimalloc_purge_delay_def netstack_builder_new_def

text \<open>The tall buffers of the load test are within what the budget arithmetic can count.\<close>

lemma stress_started:
  assumes "build S seed now (\<lambda>_. ((), ())) (\<lambda>_. ((), ())) ((), ()) b = Some (ru, irx, h, erx)"
    and "stress_builder = Inr b"
  shows "started S (ru_shared ru, [])"
proof (rule started.intros [OF _ _ assms(1)])
  show "builder_wf b" by (rule builder_wf_add [OF _ assms(2) [unfolded stress_builder_def]]) simp
  show "config_ok (nb_config b)"
    using assms(2)
    by (auto simp: stress_builder_def add_interface_result stress_setters netstack_config_default_def
        config_ok_def tcp_cost_def udp_cost_def st_tcp_buffer_size_def udp_buffer_slots_def)
qed

lemma stress_builder_ok: "\<exists>b. stress_builder = Inr b \<and> map fst (nb_interfaces b) = [InterfaceId 0]"
  by (simp add: stress_builder_def add_interface_result stress_setters st_if_def)

section \<open>Ports\<close>

definition peer_ephemeral_base :: u16 where
  "peer_ephemeral_base = 40000"

definition peer_ephemeral_span :: u16 where
  "peer_ephemeral_span = 1000"

definition tcp_storm_conns :: nat where
  "tcp_storm_conns = 300"

definition tcp_port_base :: u16 where
  "tcp_port_base = 2000"

text \<open>The local port of \<open>connect_tcp\<close>, and the destination port of the connection \<open>i\<close> of the storm and of the churn.\<close>

definition connect_local_port :: "u16 \<Rightarrow> u16" where
  "connect_local_port port = peer_ephemeral_base + port mod peer_ephemeral_span"

definition storm_port :: "nat \<Rightarrow> u16" where
  "storm_port i = tcp_port_base + of_nat i"

lemma unat_connect_local_port: "unat (connect_local_port port) = 40000 + unat port mod 1000"
proof -
  have "unat port mod 1000 < 1000" by simp
  then show ?thesis
    by (simp add: connect_local_port_def peer_ephemeral_base_def peer_ephemeral_span_def unat_word_ariths)
qed

lemma unat_storm_port: "i < tcp_storm_conns \<Longrightarrow> unat (storm_port i) = 2000 + i"
  by (simp add: storm_port_def tcp_port_base_def tcp_storm_conns_def unat_word_ariths unat_of_nat)

text \<open>
  The connections of a storm do not share a local port, as the comment at \<open>connect_tcp\<close> asks for: they are
  fewer than the span, so none of them takes the place of another.
\<close>

lemma storm_ports_distinct: "inj_on (\<lambda>i. connect_local_port (storm_port i)) {..<tcp_storm_conns}"
proof (rule inj_onI)
  fix i j assume i: "i \<in> {..<tcp_storm_conns}" and j: "j \<in> {..<tcp_storm_conns}"
    and "connect_local_port (storm_port i) = connect_local_port (storm_port j)"
  then have "unat (connect_local_port (storm_port i)) = unat (connect_local_port (storm_port j))" by simp
  then show "i = j" using i j
    by (simp add: unat_connect_local_port unat_storm_port tcp_storm_conns_def mod_if)
qed

section \<open>The device of the peer\<close>

record test_device =
  td_ingress :: "bytes list"
  td_egress :: "bytes list"

definition test_device_new :: test_device where
  "test_device_new = \<lparr>td_ingress = [], td_egress = []\<rparr>"

definition td_drain_egress :: "test_device \<Rightarrow> bytes list \<times> test_device" where
  "td_drain_egress d = (td_egress d, d\<lparr>td_egress := []\<rparr>)"

definition td_push_ingress :: "bytes \<Rightarrow> test_device \<Rightarrow> test_device" where
  "td_push_ingress pkt d = d\<lparr>td_ingress := td_ingress d @ [pkt]\<rparr>"

definition td_receive :: "test_device \<Rightarrow> bytes option \<times> test_device" where
  "td_receive d = (case td_ingress d of
      [] \<Rightarrow> (None, d)
    | pkt # rest \<Rightarrow> (Some pkt, d\<lparr>td_ingress := rest\<rparr>))"

definition td_rx_consume :: "(bytes \<Rightarrow> 'r) \<Rightarrow> bytes \<Rightarrow> 'r" where
  "td_rx_consume f pkt = f pkt"

definition td_tx_consume :: "nat \<Rightarrow> (bytes \<Rightarrow> 'r \<times> bytes) \<Rightarrow> test_device \<Rightarrow> 'r \<times> test_device" where
  "td_tx_consume len f d =
     (let (result, buf) = f (replicate len 0)
      in (result, d\<lparr>td_egress := td_egress d @ [buf]\<rparr>))"

definition td_capabilities :: "test_device \<Rightarrow> device_capabilities" where
  "td_capabilities d =
     \<lparr>caps_medium = MediumIp, caps_max_transmission_unit = 1500, caps_max_burst_size = None\<rparr>"

interpretation peer_ingress: fifo td_ingress td_push_ingress td_receive
  by unfold_locales (auto simp: td_push_ingress_def td_receive_def)

text \<open>The peer's device behaves as the device of the stack does, with the MTU fixed.\<close>

definition as_virtual_device :: "test_device \<Rightarrow> virtual_device" where
  "as_virtual_device d = \<lparr>dev_mtu = 1500, ingress = td_ingress d, egress = td_egress d\<rparr>"

lemma test_device_is_virtual:
  "as_virtual_device test_device_new = virtual_device_new 1500"
  "as_virtual_device (td_push_ingress pkt d) = push_ingress pkt (as_virtual_device d)"
  "map_prod id as_virtual_device (td_receive d) = receive (as_virtual_device d)"
  "map_prod id as_virtual_device (td_tx_consume len f d) = tx_consume len f (as_virtual_device d)"
  "td_capabilities d = capabilities (as_virtual_device d)"
  by (auto simp: as_virtual_device_def test_device_new_def virtual_device_new_def td_push_ingress_def
      push_ingress_def td_receive_def receive_def td_tx_consume_def tx_consume_def td_capabilities_def
      capabilities_def Let_def split_beta split: list.split)

section \<open>The shuttle\<close>

text \<open>
  Injecting a packet until the stack takes it. \<open>slept\<close> is what the other tasks do to the stack and the channel
  during the pause of a millisecond; \<open>None\<close> is a loop that does not end.
\<close>

partial_function (option) send_retry ::
    "('q \<Rightarrow> ingress_packet \<Rightarrow> try_send_error + 'q) \<Rightarrow>
     (('i, 's, 't) shared \<times> 'q \<Rightarrow> ('i, 's, 't) shared \<times> 'q) \<Rightarrow> interface_id \<Rightarrow> bytes \<Rightarrow>
     ('i, 's, 't) shared \<times> 'q \<Rightarrow> (('i, 's, 't) shared \<times> 'q) option" where
  "send_retry try_send slept i pkt w =
     (case send_ip_packet try_send i pkt w of
        (result, w) \<Rightarrow>
          (case result of
             Inr _ \<Rightarrow> Some w
           | Inl _ \<Rightarrow> send_retry try_send slept i pkt (slept w)))"

declare send_retry.simps [code]

text \<open>What the shuttle's \<open>select!\<close> delivers, with the answer of \<open>session_tx\<close> for a session.\<close>

datatype shuttle_event =
    ShuttleEgress "egress_packet option"
  | ShuttleAccept "session option" bool
  | ShuttleTick

record ('i, 's, 't, 'q, 'p) shuttle =
  su_stack :: "('i, 's, 't) shared \<times> 'q"
  su_peer :: 'p
  su_device :: test_device
  su_sessions :: "session list"

text \<open>The branches of \<open>select!\<close>: the flag says whether the loop goes on. A session that is refused is dropped.\<close>

fun shuttle_select ::
    "('i, 's, 't, 'u, 'x) smoltcp_scheme \<Rightarrow> shuttle_event \<Rightarrow> ('i, 's, 't, 'q, 'p) shuttle \<Rightarrow>
     (bool \<times> ('i, 's, 't, 'q, 'p) shuttle) option" where
  "shuttle_select S (ShuttleEgress (Some pkt)) su =
     Some (True, su\<lparr>su_device := td_push_ingress (eg_data pkt) (su_device su)\<rparr>)"
| "shuttle_select S (ShuttleEgress None) su = Some (False, su)"
| "shuttle_select S (ShuttleAccept (Some s) ok) su =
     (if ok then Some (True, su\<lparr>su_sessions := su_sessions su @ [s]\<rparr>)
      else do {
        sh \<leftarrow> session_drop S s (fst (su_stack su));
        Some (False, su\<lparr>su_stack := (sh, snd (su_stack su))\<rparr>)
      })"
| "shuttle_select S (ShuttleAccept None ok) su = Some (False, su)"
| "shuttle_select S ShuttleTick su = Some (True, su)"

text \<open>A turn of the loop: the event, a poll of the peer, and everything the peer emitted goes into the stack.\<close>

definition shuttle_turn ::
    "('i, 's, 't, 'u, 'x) smoltcp_scheme \<Rightarrow> ('q \<Rightarrow> ingress_packet \<Rightarrow> try_send_error + 'q) \<Rightarrow>
     (('i, 's, 't) shared \<times> 'q \<Rightarrow> ('i, 's, 't) shared \<times> 'q) \<Rightarrow> ('p \<Rightarrow> test_device \<Rightarrow> 'p \<times> test_device) \<Rightarrow>
     interface_id \<Rightarrow> shuttle_event \<Rightarrow> ('i, 's, 't, 'q, 'p) shuttle \<Rightarrow>
     (bool \<times> ('i, 's, 't, 'q, 'p) shuttle) option" where
  "shuttle_turn S try_send slept peer_poll i ev su = do {
     (go, su) \<leftarrow> shuttle_select S ev su;
     if \<not> go then Some (False, su)
     else do {
       let (peer, device) = peer_poll (su_peer su) (su_device su);
       let (out, device) = td_drain_egress device;
       stack \<leftarrow> for_each (send_retry try_send slept i) out (su_stack su);
       Some (True, su\<lparr>su_stack := stack, su_peer := peer, su_device := device\<rparr>)
     }
   }"

text \<open>The retry ends when an attempt succeeds, however many fail before it.\<close>

lemma send_retry_ends:
  assumes "fst (send_ip_packet try_send i pkt w) = Inr ()"
  shows "send_retry try_send slept i pkt w = Some (snd (send_ip_packet try_send i pkt w))"
  by (subst send_retry.simps) (use assms in \<open>simp add: split_beta\<close>)

lemma send_retry_again:
  assumes "fst (send_ip_packet try_send i pkt w) = Inl e"
  shows "send_retry try_send slept i pkt w = send_retry try_send slept i pkt (slept (snd (send_ip_packet try_send i pkt w)))"
  by (subst send_retry.simps) (use assms in \<open>simp add: split_beta\<close>)

text \<open>
  It waits out every error, not only a full channel: once the runner is gone and the channel closed, the
  shuttle sleeps and retries for ever instead of ending.
\<close>

lemma send_retry_stuck:
  assumes closed: "\<And>w. P w \<Longrightarrow> try_send (snd w) \<lparr>ig_interface = i, ig_data = pkt\<rparr> = Inl TrySendClosed"
    and slept: "\<And>w. P w \<Longrightarrow> P (slept w)" and "P w"
  shows "send_retry try_send slept i pkt w = None"
proof -
  let ?Q = "\<lambda>ts s i' p w. ts = try_send \<and> s = slept \<and> i' = i \<and> p = pkt \<longrightarrow> \<not> P w"
  have "?Q ts s i' p w" if "send_retry ts s i' p w = Some w'" for ts s i' p w w'
  proof (rule send_retry.raw_induct [OF _ that], intro impI notI)
    fix self ts s i' p w w'
    assume IH: "\<And>ts s i' p w w'. self ts s i' p w = Some w' \<Longrightarrow> ?Q ts s i' p w"
      and body: "(case send_ip_packet ts i' p w of (Inl _, w) \<Rightarrow> self ts s i' p (s w) | (Inr _, w) \<Rightarrow> Some w) = Some w'"
      and eqs: "ts = try_send \<and> s = slept \<and> i' = i \<and> p = pkt" and w: "P w"
    have "\<exists>e. send_ip_packet try_send i pkt w = (Inl e, w)"
      using closed [OF w] by (cases w) (simp add: send_ip_packet_def)
    then have "self try_send slept i pkt (slept w) = Some w'" using body eqs by auto
    then show False using IH slept [OF w] by blast
  qed
  then show ?thesis using assms(3) by (cases "send_retry try_send slept i pkt w") blast+
qed

text \<open>
  On a channel that has room the shuttle loses nothing: a turn that goes on hands the peer's packets to the
  stack in order, and the peer's device is left empty.
\<close>

lemma shuttle_delivers:
  assumes room: "\<And>q p. try_send q p = Inr (q @ [p])"
    and turn: "shuttle_turn S try_send slept peer_poll i ev su = Some (True, su')"
    and known: "i \<in> set (interface_ids (fst (su_stack su)))"
    and selected: "shuttle_select S ev su = Some (True, su1)"
  shows "snd (su_stack su') = snd (su_stack su) @
      map (\<lambda>pkt. \<lparr>ig_interface = i, ig_data = pkt\<rparr>) (td_egress (snd (peer_poll (su_peer su1) (su_device su1)))) \<and>
    td_egress (su_device su') = []"
proof -
  have send: "snd w' = snd w @ map (\<lambda>pkt. \<lparr>ig_interface = i, ig_data = pkt\<rparr>) pkts"
    if "for_each (send_retry try_send slept i) pkts w = Some w'" "i \<in> set (interface_ids (fst w))" for pkts w w'
    using that
  proof (induction pkts arbitrary: w)
    case (Cons pkt pkts)
    have "core_slot (sh_core (fst w)) i \<noteq> None" using Cons.prems(2) by (simp add: core_slot_interface_ids)
    then have one: "send_ip_packet try_send i pkt w = (Inr (), notify_poll (fst w), snd w @ [\<lparr>ig_interface = i, ig_data = pkt\<rparr>])"
      by (cases w) (simp add: send_ip_packet_def room Let_def)
    then have "send_retry try_send slept i pkt w = Some (notify_poll (fst w), snd w @ [\<lparr>ig_interface = i, ig_data = pkt\<rparr>])"
      using send_retry_ends [of try_send i pkt w slept] by simp
    then show ?case using Cons by (simp add: interface_ids_def notify_poll_def)
  qed simp
  have "su_stack su1 = su_stack su" using selected by (cases "(S, ev, su)" rule: shuttle_select.cases) (auto split: if_splits simp: bind_eq_Some_conv)
  then obtain stack where "for_each (send_retry try_send slept i) (td_egress (snd (peer_poll (su_peer su1) (su_device su1))))
      (su_stack su) = Some stack" "su_stack su' = stack" "td_egress (su_device su') = []"
    using turn selected by (auto simp: shuttle_turn_def td_drain_egress_def bind_eq_Some_conv split_beta Let_def)
  with send [OF this(1) known] show ?thesis by simp
qed

section \<open>Waiting and sending\<close>

datatype helper_result = StillWaiting | Returned | Panicked

text \<open>
  \<open>wait_peer\<close>: the list says for each turn whether the deadline is still ahead, and what happens to the peer during
  the sleep. The condition may change the peer.
\<close>

primrec wait_peer :: "('p \<Rightarrow> bool \<times> 'p) \<Rightarrow> (bool \<times> ('p \<Rightarrow> 'p)) list \<Rightarrow> 'p \<Rightarrow> helper_result \<times> 'p" where
  "wait_peer cond [] p = (StillWaiting, p)"
| "wait_peer cond (turn # turns) p =
     (if fst turn
      then (let (holds, p) = cond p
            in if holds then (Returned, p) else wait_peer cond turns (snd turn p))
      else (Panicked, p))"

text \<open>
  \<open>tcp_send\<close>: each attempt is what \<open>send_slice\<close> answers to the bytes it is given and whether the deadline has passed
  afterwards. The result has the pieces that the socket took.
\<close>

primrec tcp_send ::
    "((bytes \<Rightarrow> 'e + nat) \<times> bool) list \<Rightarrow> bytes \<Rightarrow> nat \<Rightarrow> helper_result \<times> bytes list" where
  "tcp_send [] data offset = (StillWaiting, [])"
| "tcp_send (attempt # attempts) data offset =
     (if length data < offset then (Panicked, [])
      else
        let done_bytes = (case fst attempt (drop offset data) of Inr n \<Rightarrow> n | Inl _ \<Rightarrow> 0);
            piece = take done_bytes (drop offset data);
            offset = offset + done_bytes
        in if offset = length data then (Returned, [piece])
           else if snd attempt then (Panicked, [piece])
           else (let (r, pieces) = tcp_send attempts data offset in (r, piece # pieces)))"

text \<open>When it returns, the socket was given the data, all of it, once and in order.\<close>

lemma tcp_send_complete:
  assumes "tcp_send attempts data offset = (Returned, pieces)"
  shows "offset \<le> length data \<and> concat pieces = drop offset data"
  using assms
proof (induction attempts arbitrary: offset pieces)
  case (Cons attempt attempts)
  have le: "offset \<le> length data" using Cons.prems by (auto split: if_splits)
  obtain n where n: "(case fst attempt (drop offset data) of Inr n \<Rightarrow> n | Inl _ \<Rightarrow> 0) = n" by blast
  obtain r rest where rest: "tcp_send attempts data (offset + n) = (r, rest)" by fastforce
  show ?case
  proof (cases "offset + n = length data")
    case True
    then have "pieces = [take n (drop offset data)]" using Cons.prems le by (simp add: n Let_def)
    then show ?thesis using le True by auto
  next
    case False
    then have r: "r = Returned" "pieces = take n (drop offset data) # rest"
      using Cons.prems le rest by (auto simp: n Let_def split: if_splits)
    then have "concat pieces = take n (drop offset data) @ drop (n + offset) data"
      using Cons.IH [of "offset + n" rest] rest by (simp add: add.commute)
    also have "\<dots> = drop offset data" by (metis append_take_drop_id drop_drop)
    finally show ?thesis using le by simp
  qed
qed simp

text \<open>A socket that takes at most what it is given never makes the slice panic: it panics at the deadline only.\<close>

lemma tcp_send_panics_late:
  assumes "tcp_send attempts data offset = (Panicked, pieces)" and "offset \<le> length data"
    and "\<forall>a \<in> set attempts. \<forall>b n. fst a b = Inr n \<longrightarrow> n \<le> length b"
  shows "\<exists>a \<in> set attempts. snd a"
  using assms
proof (induction attempts arbitrary: offset pieces)
  case (Cons attempt attempts)
  obtain n where n: "(case fst attempt (drop offset data) of Inr n \<Rightarrow> n | Inl _ \<Rightarrow> 0) = n" by blast
  have "n \<le> length (drop offset data)"
    using Cons.prems(3) n by (cases "fst attempt (drop offset data)") (simp, force)
  then have fits: "offset + n \<le> length data" using Cons.prems(2) by simp
  obtain r rest where rest: "tcp_send attempts data (offset + n) = (r, rest)" by fastforce
  show ?case
  proof (cases "snd attempt")
    case False
    then have "r = Panicked"
      using Cons.prems(1,2) rest by (auto simp: n Let_def split: if_splits)
    then show ?thesis using Cons.IH [of "offset + n" rest] rest fits Cons.prems(3) by auto
  qed simp
qed simp

text \<open>
  How the storm and the churn compare the echo: one read into a zeroed buffer of the length of the marker,
  which may return fewer bytes, and then the whole buffer.
\<close>

definition echo_matches :: "bytes \<Rightarrow> bytes \<Rightarrow> bool" where
  "echo_matches marker data = (data @ drop (length data) (replicate (length marker) 0) = marker)"

text \<open>A correct echo that arrives in two parts fails the comparison, unless the missing part is zeros.\<close>

lemma echo_matches_prefix:
  assumes "n \<le> length marker"
  shows "echo_matches marker (take n marker) \<longleftrightarrow> drop n marker = replicate (length marker - n) 0"
  using assms unfolding echo_matches_def
  by (metis append_same_eq append_take_drop_id drop_replicate length_take min.absorb2 same_append_eq)

section \<open>The echo relays\<close>

datatype echo_udp_pc = EchoRecv | EchoSend bytes | EchoReturned | EchoPanicked

text \<open>
  \<open>echo_udp\<close> from one wake-up to the next; a wait leaves the place. \<open>unwrap\<close> turns an error of \<open>send\<close> into a panic
  of the relay's task; \<open>None\<close> is a panic inside the session.
\<close>

fun echo_udp_step ::
    "('i, 's, 't, 'u, 'x) smoltcp_scheme \<Rightarrow> way_udp_session \<Rightarrow> echo_udp_pc \<times> ('i, 's, 't) shared \<Rightarrow>
     (echo_udp_pc \<times> ('i, 's, 't) shared) option" where
  "echo_udp_step S us (EchoRecv, sh) =
     (case udp_recv_poll us sh of
        (PollReady None, sh) \<Rightarrow> Some (EchoReturned, sh)
      | (PollReady (Some dgram), sh) \<Rightarrow> Some (EchoSend dgram, sh)
      | (PollPending, sh) \<Rightarrow> Some (EchoRecv, sh))"
| "echo_udp_step S us (EchoSend dgram, sh) = do {
     (r, sh) \<leftarrow> udp_send_poll S us dgram sh;
     Some (case r of
             PollReady (Inr _) \<Rightarrow> EchoRecv
           | PollReady (Inl _) \<Rightarrow> EchoPanicked
           | PollPending \<Rightarrow> EchoSend dgram, sh)
   }"
| "echo_udp_step S us (EchoReturned, sh) = Some (EchoReturned, sh)"
| "echo_udp_step S us (EchoPanicked, sh) = Some (EchoPanicked, sh)"

text \<open>While the session is open, a datagram goes back to the endpoint it came from.\<close>

lemma echo_udp_echoes:
  assumes "us_queue us < length (sh_queues sh)" and "q_inner (sh_queues sh ! us_queue us) = dgram # rest"
    and "\<not> is_closed (sh_queues sh ! us_queue us)"
    and "core_slot (sh_core sh) (us_interface us) = Some slot" and "get_mut_udp S (sockets slot) (us_socket us) = Some u"
    and "udp_send_slice S u dgram (sk_src (us_key us)) = (Inr (), u')"
  shows "\<exists>sh'. echo_udp_step S us (EchoRecv, sh) \<bind> echo_udp_step S us = Some (EchoRecv, sh') \<and>
    q_inner (sh_queues sh' ! us_queue us) = rest \<and>
    sh_core sh' = put_socket S slot (us_socket us) (UdpSocket u') (sh_core sh)"
  using assms
  by (simp add: udp_recv_poll_def udp_queue_pop_def udp_send_poll_def udp_try_send_def is_closed_def notify_poll_def)

text \<open>
  A session that ends with datagrams in its queue still delivers them, and then refuses to send: the relay's
  task panics on the first of them.
\<close>

lemma echo_udp_panics:
  assumes "us_queue us < length (sh_queues sh)" and "q_inner (sh_queues sh ! us_queue us) = dgram # rest"
    and "is_closed (sh_queues sh ! us_queue us)"
  shows "\<exists>sh'. echo_udp_step S us (EchoRecv, sh) \<bind> echo_udp_step S us = Some (EchoPanicked, sh')"
  using assms
  by (simp add: udp_recv_poll_def udp_queue_pop_def udp_send_poll_def udp_try_send_def is_closed_def)

text \<open>A session that ends with an empty queue ends the relay.\<close>

lemma echo_udp_returns:
  assumes "q_inner (sh_queues sh ! us_queue us) = []" and "is_closed (sh_queues sh ! us_queue us)"
  shows "echo_udp_step S us (EchoRecv, sh) = Some (EchoReturned, sh)"
  using assms by (simp add: udp_recv_poll_def udp_queue_pop_def)

datatype echo_tcp_pc = EchoRead | EchoWrite bytes | EchoEnded

text \<open>
  \<open>echo_tcp\<close>: a read of at most 128 KiB, then \<open>write_all\<close>, which writes what is left until nothing is, and fails on
  a write that takes nothing. Every error ends the relay.
\<close>

fun echo_tcp_step ::
    "('i, 's, 't, 'u, 'x) smoltcp_scheme \<Rightarrow> way_tcp_stream \<Rightarrow> waker \<Rightarrow> echo_tcp_pc \<times> ('i, 's, 't) shared \<Rightarrow>
     (echo_tcp_pc \<times> ('i, 's, 't) shared) option" where
  "echo_tcp_step S st wk (EchoRead, sh) = do {
     (r, sh) \<leftarrow> tcp_poll_read S st wk (128 * 1024) sh;
     Some (case r of
             PollReady (Inl _) \<Rightarrow> EchoEnded
           | PollReady (Inr data) \<Rightarrow> if data = [] then EchoEnded else EchoWrite data
           | PollPending \<Rightarrow> EchoRead, sh)
   }"
| "echo_tcp_step S st wk (EchoWrite rest, sh) =
     (if rest = [] then Some (EchoRead, sh)
      else do {
        (r, sh) \<leftarrow> tcp_poll_write S st wk rest sh;
        Some (case r of
                PollReady (Inl _) \<Rightarrow> EchoEnded
              | PollReady (Inr n) \<Rightarrow> if n = 0 then EchoEnded else EchoWrite (drop n rest)
              | PollPending \<Rightarrow> EchoWrite rest, sh)
      })"
| "echo_tcp_step S st wk (EchoEnded, sh) = Some (EchoEnded, sh)"

text \<open>The bytes that a step reads from the stream and the bytes that it hands to it.\<close>

fun echo_tcp_io :: "echo_tcp_pc \<Rightarrow> echo_tcp_pc \<Rightarrow> bytes \<times> bytes" where
  "echo_tcp_io EchoRead (EchoWrite data) = (data, [])"
| "echo_tcp_io (EchoWrite rest) (EchoWrite rest') = ([], take (length rest - length rest') rest)"
| "echo_tcp_io pc pc' = ([], [])"

fun echo_pending :: "echo_tcp_pc \<Rightarrow> bytes" where
  "echo_pending (EchoWrite rest) = rest"
| "echo_pending pc = []"

text \<open>What is read is written, in order and nothing else, until the relay ends.\<close>

lemma echo_tcp_conserves:
  assumes "echo_tcp_step S st wk (pc, sh) = Some (pc', sh')" and "pc' \<noteq> EchoEnded"
  shows "echo_pending pc @ fst (echo_tcp_io pc pc') = snd (echo_tcp_io pc pc') @ echo_pending pc'"
proof (cases pc)
  case EchoRead
  obtain r where "tcp_poll_read S st wk (128 * 1024) sh = Some (r, sh')"
    using assms(1) EchoRead by (auto simp: bind_eq_Some_conv)
  then show ?thesis using assms EchoRead by (auto split: poll.splits sum.splits if_splits)
next
  case (EchoWrite rest)
  have split: "take (length rest - length (drop n rest)) rest @ drop n rest = rest" for n
    by (cases "n \<le> length rest") simp_all
  show ?thesis
  proof (cases "rest = []")
    case False
    then obtain r where "tcp_poll_write S st wk rest sh = Some (r, sh')"
      using assms(1) EchoWrite by (auto simp: bind_eq_Some_conv)
    then show ?thesis using assms EchoWrite False split by (auto split: poll.splits sum.splits if_splits)
  qed (use assms(1) EchoWrite in simp)
qed (use assms in simp)

end
