(* ===== verification/Debug_Format.thy ===== *)
theory Debug_Format
  imports Session
begin

text \<open>
  The \<open>Debug\<close> implementations of \<open>src/src/stream/tcp.rs\<close> and \<open>src/src/stream/udp.rs\<close>, with what they use of the standard
  library: \<open>debug_struct\<close> with \<open>finish_non_exhaustive\<close>, and the text of a socket address.
\<close>

section \<open>Addresses\<close>

definition octet :: "nat \<Rightarrow> 32 word \<Rightarrow> nat" where
  "octet i a = unat a div 256 ^ i mod 256"

definition ipv4_display :: "32 word \<Rightarrow> string" where
  "ipv4_display a =
     decimal (octet 3 a) @ CHR ''.'' # decimal (octet 2 a) @ CHR ''.'' # decimal (octet 1 a) @ CHR ''.'' # decimal (octet 0 a)"

definition hex_digit :: "nat \<Rightarrow> char" where
  "hex_digit n = (if n < 10 then digit n else char_of (87 + n))"

fun hexadecimal :: "nat \<Rightarrow> string" where
  "hexadecimal n = (if n < 16 then [hex_digit n] else hexadecimal (n div 16) @ [hex_digit (n mod 16)])"

declare hexadecimal.simps [simp del]

definition segments :: "128 word \<Rightarrow> nat list" where
  "segments a = map (\<lambda>i. unat a div 65536 ^ i mod 65536) (rev [0..<8])"

text \<open>The first of the longest runs of zero segments, as a start and a length.\<close>

fun zero_span :: "nat \<Rightarrow> nat list \<Rightarrow> nat \<times> nat \<Rightarrow> nat \<times> nat \<Rightarrow> nat \<times> nat" where
  "zero_span i [] current longest = longest"
| "zero_span i (seg # segs) current longest =
     (if seg = 0
      then let current = (if snd current = 0 then i else fst current, Suc (snd current))
           in zero_span (Suc i) segs current (if snd longest < snd current then current else longest)
      else zero_span (Suc i) segs (0, 0) longest)"

fun fmt_subslice :: "nat list \<Rightarrow> string" where
  "fmt_subslice [] = []"
| "fmt_subslice (seg # segs) = hexadecimal seg @ concat (map (\<lambda>s. CHR '':'' # hexadecimal s) segs)"

fun ipv4_mapped :: "nat list \<Rightarrow> bool" where
  "ipv4_mapped (a # b # c # d # e # f # rest) = (a = 0 \<and> b = 0 \<and> c = 0 \<and> d = 0 \<and> e = 0 \<and> f = 65535)"
| "ipv4_mapped _ = False"

definition ipv6_display :: "128 word \<Rightarrow> string" where
  "ipv6_display a =
     (let segs = segments a; (start, len) = zero_span 0 segs (0, 0) (0, 0)
      in if ipv4_mapped segs then ''::ffff:'' @ ipv4_display (ucast a)
         else if len > 1 then fmt_subslice (take start segs) @ ''::'' @ fmt_subslice (drop (start + len) segs)
         else fmt_subslice segs)"

fun socket_addr_display :: "socket_addr \<Rightarrow> string" where
  "socket_addr_display (SocketAddrV4 a port) = ipv4_display a @ CHR '':'' # decimal (unat port)"
| "socket_addr_display (SocketAddrV6 a port flow scope) =
     CHR ''['' # ipv6_display a @ (if scope = 0 then [] else CHR ''%'' # decimal (unat scope)) @ '']:'' @ decimal (unat port)"

section \<open>Sessions\<close>

definition interface_id_debug :: "interface_id \<Rightarrow> string" where
  "interface_id_debug i = ''InterfaceId('' @ decimal (unat (interface_id_get i)) @ '')''"

text \<open>\<open>debug_struct\<close>, its fields, and \<open>finish_non_exhaustive\<close>.\<close>

definition debug_struct :: "string \<Rightarrow> (string \<times> string) list \<Rightarrow> string" where
  "debug_struct name fs =
     name @ '' { '' @ concat (map (\<lambda>(field, val). field @ '': '' @ val @ '', '') fs) @ ''.. }''"

definition way_tcp_stream_debug :: "way_tcp_stream \<Rightarrow> string" where
  "way_tcp_stream_debug st =
     debug_struct ''WayTcpStream''
       [(''interface'', interface_id_debug (ts_interface st)),
        (''src_addr'', socket_addr_display (ts_src_addr st)),
        (''dst_addr'', socket_addr_display (ts_dst_addr st))]"

definition way_udp_session_debug :: "way_udp_session \<Rightarrow> string" where
  "way_udp_session_debug us =
     debug_struct ''WayUdpSession''
       [(''interface'', interface_id_debug (us_interface us)),
        (''src_addr'', socket_addr_display (us_src_addr us)),
        (''dst_addr'', socket_addr_display (us_dst_addr us))]"

section \<open>What the text says\<close>

lemma decimal_codes: "c \<in> set (decimal n) \<Longrightarrow> 48 \<le> (of_char c :: nat) \<and> of_char c < (58 :: nat)"
proof (induction n rule: decimal.induct)
  case (1 n)
  have "of_char (digit m) = 48 + m" if "m < 10" for m
    using that by (simp add: digit_def take_bit_nat_eq_self)
  then show ?case using 1 by (cases "n < 10") (auto simp: decimal.simps [of n])
qed

lemma separators [simp]: "CHR ''.'' \<notin> set (decimal n)" "CHR '':'' \<notin> set (decimal n)"
  by (auto dest: decimal_codes)

lemma octets_word: "unat a = ((octet 3 a * 256 + octet 2 a) * 256 + octet 1 a) * 256 + octet 0 a"
proof -
  have "unat a < 256 * 256 ^ 3" using unsigned_less [of a] by simp
  then have "octet 3 a = unat a div 256 ^ 3" by (simp add: octet_def less_mult_imp_div_less)
  moreover have "unat a div 256 ^ 2 = unat a div 256 ^ 3 * 256 + octet 2 a"
    using div_mult_mod_eq [of "unat a div 256 ^ 2" 256] by (simp add: octet_def flip: div_mult2_eq)
  moreover have "unat a div 256 = unat a div 256 ^ 2 * 256 + octet 1 a"
    using div_mult_mod_eq [of "unat a div 256" 256] by (simp add: octet_def power2_eq_square flip: div_mult2_eq)
  moreover have "unat a = unat a div 256 * 256 + octet 0 a" by (simp add: octet_def)
  ultimately show ?thesis by simp
qed

lemma append_sep_inject:
  "c \<notin> set xs \<Longrightarrow> c \<notin> set ys \<Longrightarrow> xs @ c # xs' = ys @ c # ys' \<longleftrightarrow> xs = ys \<and> xs' = ys'"
proof (induction xs arbitrary: ys)
  case Nil
  then show ?case by (cases ys) auto
next
  case (Cons x xs)
  then show ?case by (cases ys) auto
qed

lemma ipv4_display_inject: "ipv4_display a = ipv4_display b \<longleftrightarrow> a = b"
proof
  assume "ipv4_display a = ipv4_display b"
  then have "octet 3 a = octet 3 b" "octet 2 a = octet 2 b" "octet 1 a = octet 1 b" "octet 0 a = octet 0 b"
    by (simp_all add: ipv4_display_def append_sep_inject decimal_inject)
  then show "a = b" using octets_word [of a] octets_word [of b] by (simp add: word_unat_eq_iff)
qed simp

lemma socket_addr_v4_inject:
  "socket_addr_display (SocketAddrV4 a p) = socket_addr_display (SocketAddrV4 b q) \<longleftrightarrow> a = b \<and> p = q"
proof -
  have "CHR '':'' \<notin> set (ipv4_display x)" for x by (simp add: ipv4_display_def)
  then show ?thesis by (simp add: append_sep_inject ipv4_display_inject decimal_inject flip: word_unat_eq_iff)
qed

text \<open>The run that is left out of an IPv6 address is a run of zeros inside it, so nothing is lost.\<close>

definition span_ok :: "nat list \<Rightarrow> nat \<times> nat \<Rightarrow> bool" where
  "span_ok segs s \<longleftrightarrow> fst s + snd s \<le> length segs \<and> (\<forall>j < snd s. segs ! (fst s + j) = 0)"

lemma zero_span_ok:
  assumes "span_ok (done @ segs) longest" and "span_ok (done @ segs) current"
    and "snd current = 0 \<or> fst current + snd current = length done"
  shows "span_ok (done @ segs) (zero_span (length done) segs current longest)"
  using assms
proof (induction segs arbitrary: "done" current longest)
  case (Cons seg segs)
  show ?case
  proof (cases "seg = 0")
    case True
    let ?cur = "(if snd current = 0 then length done else fst current, Suc (snd current))"
    have "span_ok (done @ seg # segs) ?cur"
      using Cons.prems(2,3) True by (auto simp: span_ok_def nth_append less_Suc_eq)
    moreover have "fst ?cur + snd ?cur = length (done @ [seg])" using Cons.prems(3) by auto
    ultimately show ?thesis
      using Cons.IH [of "done @ [seg]" "if snd longest < snd ?cur then ?cur else longest" ?cur] Cons.prems(1) True
      by (auto simp: Let_def)
  next
    case False
    then show ?thesis
      using Cons.IH [of "done @ [seg]" longest "(0, 0)"] Cons.prems(1) by (simp add: span_ok_def)
  qed
qed simp

lemma zero_span_expand:
  assumes "zero_span 0 segs (0, 0) (0, 0) = (start, len)"
  shows "take start segs @ replicate len 0 @ drop (start + len) segs = segs"
proof -
  have ok: "span_ok segs (start, len)"
    using zero_span_ok [of "[]" segs "(0, 0)" "(0, 0)"] assms by (simp add: span_ok_def)
  then have "replicate len 0 = take len (drop start segs)"
    by (intro nth_equalityI) (auto simp: span_ok_def)
  then show ?thesis by (metis add.commute append_take_drop_id drop_drop)
qed

text \<open>Samples of the text.\<close>

lemma socket_addr_samples:
  "socket_addr_display (SocketAddrV4 0xC0A80069 8080) = ''192.168.0.105:8080''"
  "socket_addr_display (SocketAddrV6 0x00FD0000000000000000000000000001 53 0 0) = ''[fd::1]:53''"
  "socket_addr_display (SocketAddrV6 0xFFFF0A000002 1 0 2) = ''[::ffff:10.0.0.2%2]:1''"
  "socket_addr_display (SocketAddrV6 0x20010DB8000000010001000100010001 1 0 0) = ''[2001:db8:0:1:1:1:1:1]:1''"
  by (simp_all add: ipv4_display_def ipv6_display_def octet_def segments_def decimal.simps hexadecimal.simps
      hex_digit_def digit_def upt_rec Let_def char_of_def bit_0)

end
