(* ===== verification/Spec2Isabelle.thy ===== *)
theory Spec2Isabelle
  imports Session_Properties Boundary_Properties Conc_Flows Runner_Progress Tun_Proxy Stress_Test Debug_Format
begin

text \<open>
  \<^bold>\<open>way-netstack, a verified model.\<close>

  The program is a userspace network stack for transparent proxies: raw IP packets go in, established TCP
  connections and UDP pseudo-sessions come out. It is a layer around \<open>smoltcp\<close>, a poll-driven TCP/IP engine.
  A background task, the runner, feeds packets to the engine, allocates sockets for new flows before each
  poll, polls, and afterwards hands out sessions, redistributes datagrams and reaps what has ended. The
  application holds session values that reach the same state through a mutex.

  \<^bold>\<open>Theories and sources\<close> (all under \<open>src/src\<close>). Each theory opens with what it holds.

  \<^item> \<open>Netstack_Prelude\<close>: machine types, \<open>HashMap\<close> as an association list with an iteration order that is a
    parameter, loops that may panic (\<open>for_each\<close>), generic lemmas.
  \<^item> \<open>Log_Level\<close>: \<open>log.rs\<close>. \<open>Net_Types\<close>: \<open>lib.rs\<close>, \<open>session/types.rs\<close>, \<open>error.rs\<close>, the packet types of \<open>handle.rs\<close> and
    \<open>to_socket_addr\<close>. \<open>Fifo_Interface\<close>: the contract of a queue. \<open>Virtual_Device\<close>: \<open>device/virtual_device.rs\<close>.
  \<^item> \<open>Smoltcp_Interface\<close>: the engine as two records of operations, \<open>smoltcp\<close> and \<open>wire\<close>, with the documented
    behaviour the code relies on as the predicates \<open>socket_set_laws\<close>, \<open>poll_laws\<close>, \<open>udp_bind_law\<close>,
    \<open>udp_recv_progress\<close> and \<open>wire_laws\<close>. \<open>Ingress_Parser\<close>: \<open>parse_l4\<close> and \<open>dispatch_l4\<close> of \<open>runner.rs\<close>.
  \<^item> \<open>Session_Manager\<close>: \<open>session/manager.rs\<close>. \<open>Netstack_Core\<close>: \<open>core.rs\<close> and the configuration of \<open>builder.rs\<close>.
    \<open>Tcp_Stream\<close>, \<open>Udp_Session\<close>: \<open>stream/tcp.rs\<close>, \<open>stream/udp.rs\<close>. \<open>Session\<close>: \<open>session/mod.rs\<close>.
  \<^item> \<open>Runner\<close>: \<open>runner.rs\<close>, one definition per function and per loop body (\<open>alloc_tcp\<close>, \<open>alloc_udp\<close>, \<open>pre_pass\<close>,
    \<open>post_pass\<close>, \<open>poll_once\<close>, \<open>run_iteration\<close> and their parts).
  \<^item> \<open>Builder\<close>: \<open>builder.rs\<close>. \<open>Handle\<close>: \<open>handle.rs\<close>.
  \<^item> \<open>Core_Invariant\<close>, \<open>Core_Changes\<close>: the invariant \<open>good\<close> of the shared state together with the session values
    that exist, and how a change of it is justified. \<open>Stream_Ops\<close>, \<open>Runner_Alloc\<close>, \<open>Runner_Tcp\<close>, \<open>Runner_Udp\<close>,
    \<open>Runner_Cycle\<close>: every operation keeps the invariant and has the effect its specification says.
  \<^item> \<open>System\<close>: the running stack as a transition system, its reachable states, and the runner's loop as a
    run of it. \<open>Example_Engine\<close>: a small concrete engine that satisfies all the laws, and a few runs on it;
    the witnesses are evaluated there.
  \<^item> \<open>Wakeups\<close>: \<open>recv\<close>, \<open>send\<close> and the loop of the runner one memory access at a time, to see which
    notifications are lost; without interference \<open>recv\<close> is the atomic operation of \<open>Udp_Session\<close>.
  \<^item> \<open>Simulation_Interface\<close>: what it means that one transition system implements another. \<open>Flow_Spec\<close>: the abstract
    machine of the stack, a table of connections and flows, and that \<open>System\<close> implements it. \<open>Concurrency\<close>: the runner
    place by place, interleaved with the application, and that it implements \<open>System\<close>; \<open>Concurrency_Properties\<close>:
    what follows. \<open>Session_Frame\<close>: what the application's operations leave alone. \<open>Session_End\<close>: a session that
    has ended. \<open>Conc_Flows\<close>: the two refinements composed.
  \<^item> \<open>Progress_Interface\<close>: what it means that a system must reach a goal. \<open>Runner_Progress\<close>: every turn of the
    runner's loop ends.
  \<^item> \<open>Session_Properties\<close>, \<open>Boundary_Properties\<close> and this theory hold the other properties. \<open>Debug_Format\<close>: the \<open>Debug\<close> text
    of the two stream types. \<open>Tun_Proxy\<close>: \<open>examples/tun_proxy.rs\<close>. \<open>Stress_Test\<close>: the rig of \<open>examples/stress_test.rs\<close>.

  \<^bold>\<open>State.\<close> \<open>Shared\<close> is the record \<open>shared\<close>: the core with its slots, registry, configuration and byte counter, and
  the datagram queues, which Rust shares through \<open>Arc\<close>, as a store addressed by index. A \<open>usize\<close> is a
  \<open>64 word\<close>, so the budget arithmetic wraps; \<open>config_ok\<close> is the condition on a configuration under which it
  never does. A panic is \<open>None\<close>. A \<open>Notify\<close> is the number of its notifications.

  \<^bold>\<open>Interfaces\<close> are locales with interpretations on the model: \<open>fifo\<close> (the devices and the datagram queue),
  \<open>refcount\<close> (the shared UDP sockets), \<open>budget\<close> (the byte counter), \<open>transition_invariant\<close> (the running stack),
  \<open>forward_simulation\<close> (the concurrent program implements the stack, the stack the flow table, and by their
  composition the program the table), \<open>ranked_progress\<close> (the turns of the runner).

  \<^bold>\<open>Atomicity and time.\<close> Every access of the sources to the core holds the mutex, so a run is a sequence of
  critical sections in any order; \<open>System\<close> quantifies over all of them, and \<open>Concurrency\<close> shows that this is what
  the runner's program and an application can do together. \<open>recv\<close>, \<open>send\<close>, \<open>accept\<close> are modelled from one
  wake-up to the next. The clock, the iteration order of the maps, the packets that are waiting and the
  branch \<open>select!\<close> takes are arguments. The only loop of the library without a bound in a critical section is the
  drain of a UDP socket, a \<open>partial_function\<close>; \<open>udp_drain_terminates\<close> shows that it ends when receiving removes a datagram.
  The only one outside is the runner's loop over the waiting packets; C12 takes their number as a parameter.
  There is no fuel. The retry loop of \<open>Stress_Test\<close> may run for ever, and it is shown when it does.

  \<^bold>\<open>Properties.\<close> C1 to C4: no panic, exact budget, limits, exact reference counts in every reachable state.
  C5 to C10: what a poll does to datagrams, idle sessions, TCP entries and accepted streams, and who owns
  what. C11, C12: the runner and the application under all interleavings refine the transition system, and
  every turn of the runner ends; C40: without interference the runner's steps are \<open>run_iteration\<close>. C13 to C15, C17:
  pre-pass, allocation, egress. C16: a UDP session that has ended stays silent. C18, C19: dropping sessions.
  C20: the post-pass refines an abstract relay of flows; C22: the stack refines the flow table. C21, C23: behaviours that are not what one would want.
  C24 to C27: the operations of an application. C29 to C33: building, injecting, sleeping.
  C34: the registry is well typed. C35, C37: the contracts of the parts below. C28, C33, C36, C38, C39:
  waiting and waking, where C38 says what is guaranteed and the others where a wake-up is missing.

  \<^bold>\<open>Not modelled.\<close> The engine itself, the channels and \<open>Notify\<close> of \<open>tokio\<close> and the allocator are other code: they
  are parameters, and a \<open>Notify\<close> is reduced to the number of its notifications. Log output has no effect on the
  state and is left out, as is the pretty-printed form of \<open>Debug\<close>. In \<open>examples/tun_proxy.rs\<close> the calls into the operating
  system are events and answers. Of \<open>examples/stress_test.rs\<close> the scripts of the five scenarios and the engine
  of the peer are left out. The integration tests drive the library from outside, and the module files only
  declare and re-export.
\<close>

section \<open>The running stack\<close>

text \<open>
  C1. In every state the stack can reach, no operation panics: neither a poll cycle, nor any operation of
  the application on a session it holds, nor the drop of a session, in whatever order they interleave.
\<close>

theorem stack_never_panics:
  assumes "engine_laws S W" and "reachable S W (sh, live)" and "enabled a live"
  shows "\<exists>sh' live'. perform S W a (sh, live) = Some (sh', live')"
proof -
  have "world_good S (sh, live)" using reachable_good [OF assms(1,2)] by (simp add: world_good_def)
  from perform_good [OF assms(1) this assms(3)] show ?thesis by auto
qed

theorem stack_never_panics_witness:
  "\<exists>sh' live'. perform demo demo_wire (ActRead demo_stream 0 4) (fst demo_polled, snd demo_polled) =
    Some (sh', live')"
  by (rule stack_never_panics [OF demo_laws demo_polled_reachable]) (simp add: demo_polled_live)

text \<open>
  C2. The buffer budget is exact: the counter always equals two TCP buffers for every registered
  connection plus the cost of one shared socket for every destination with UDP sessions, it never wraps
  around, and it never exceeds the configured cap.
\<close>

theorem buffer_budget_exact:
  assumes "engine_laws S W" and "reachable S W (sh, live)"
  shows "unat (buffer_bytes (sh_core sh)) =
      2 * unat (cfg_tcp_buffer_size (config (sh_core sh))) * length (mgr_tcp (manager (sh_core sh))) +
      (max (unat (cfg_udp_buffer_packets (config (sh_core sh)))) 1 * 64 +
        max (unat (cfg_udp_buffer_bytes (config (sh_core sh)))) (unat (cfg_mtu (config (sh_core sh))))) *
      length (udp_dst_sockets (manager (sh_core sh))) \<and>
    (case cfg_max_buffer_bytes (config (sh_core sh)) of
       Some limit \<Rightarrow> buffer_bytes (sh_core sh) \<le> limit | None \<Rightarrow> True)"
  using goodD(5,6) [OF reachable_good [OF assms]]
  by (auto simp: accounted_def within_cap_def tcp_cost_def udp_cost_def split: option.split)

theorem buffer_budget_exact_witness:
  "unat (buffer_bytes (sh_core (fst demo_polled))) =
    2 * unat (cfg_tcp_buffer_size (config (sh_core (fst demo_polled)))) * 1 +
    (max (unat (cfg_udp_buffer_packets (config (sh_core (fst demo_polled))))) 1 * 64 +
      max (unat (cfg_udp_buffer_bytes (config (sh_core (fst demo_polled)))))
        (unat (cfg_mtu (config (sh_core (fst demo_polled)))))) * 1"
  using buffer_budget_exact [OF demo_laws demo_polled_reachable]
  by (simp add: demo_polled_tcp demo_polled_dst)

text \<open>
  C3. The numbers of TCP connections and of UDP sessions never exceed their configured limits, and each
  session key is registered once.
\<close>

theorem session_limits:
  assumes "engine_laws S W" and "reachable S W (sh, live)"
  shows "length (mgr_tcp (manager (sh_core sh))) \<le> unat (cfg_tcp_max_connections (config (sh_core sh))) \<and>
    length (mgr_udp (manager (sh_core sh))) \<le> unat (cfg_udp_max_sessions (config (sh_core sh))) \<and>
    distinct (map fst (mgr_tcp (manager (sh_core sh)))) \<and> distinct (map fst (mgr_udp (manager (sh_core sh))))"
  using tcp_wfD(1,2) [OF goodD(3) [OF reachable_good [OF assms]]]
    udp_wfD(1,3) [OF goodD(4) [OF reachable_good [OF assms]]] by blast

theorem session_limits_witness:
  "length [demo_tcp_key] \<le> unat (cfg_tcp_max_connections (config (sh_core (fst demo_polled))))"
  using session_limits [OF demo_laws demo_polled_reachable] by (simp add: demo_polled_tcp)

text \<open>
  C4. The reference count of a shared UDP socket is the number of sessions registered on its destination,
  it is positive, and the socket exists and is a UDP socket.
\<close>

theorem udp_refcount_exact:
  assumes "engine_laws S W" and "reachable S W (sh, live)"
    and "hm_get (udp_dst_sockets (manager (sh_core sh))) (i, d) = Some (h, n)"
  shows "unat n = length (filter (\<lambda>(k, e). sk_interface k = i \<and> sk_dst k = d) (mgr_udp (manager (sh_core sh)))) \<and>
    0 < unat n \<and>
    (\<exists>slot u. core_slot (sh_core sh) i = Some slot \<and> get_mut_udp S (sockets slot) h = Some u)"
  using udp_wfD(9-11) [OF goodD(4) [OF reachable_good [OF assms(1,2)]] assms(3)]
  by (simp add: kind_at_UdpKind sessions_on_def)

theorem udp_refcount_exact_witness:
  "unat (1 :: usize) = length (filter (\<lambda>(k, e). sk_interface k = InterfaceId 1 \<and> sk_dst k = demo_dst 53)
    (mgr_udp (manager (sh_core (fst demo_polled)))))"
  using udp_refcount_exact [OF demo_laws demo_polled_reachable, of "InterfaceId 1" "demo_dst 53" 2 1]
  by (simp add: demo_polled_dst)



text \<open>
  C6. The timeout sweep is exact: after a poll a UDP session is registered exactly when the time since its
  last activity, which is now if it received a datagram in this poll, does not exceed the timeout; the
  queue of a session that is gone is closed.
\<close>

theorem udp_sweep_exact:
  assumes "engine_laws S W" and "reachable S W (sh, live)"
    and "pre_pass S W now (sh, []) = Some (sh1, acc)"
    and "poll_locked S W ord now sh = Some (sh', accepted, out)"
    and "hm_get (mgr_udp (manager (sh_core (polled S now sh1)))) k = Some e"
    and "e' = (if datagrams_at S (sh_core (polled S now sh1)) k = [] then e else e\<lparr>ue_last_activity := now\<rparr>)"
  shows "if duration_from_std S (cfg_udp_session_timeout (config (sh_core sh))) < instant_sub S now (ue_last_activity e')
    then hm_get (mgr_udp (manager (sh_core sh'))) k = None \<and> is_closed (sh_queues sh' ! ue_queue e)
    else hm_get (mgr_udp (manager (sh_core sh'))) k = Some e'"
proof (rule poll_phases [OF assms(1-4)])
  fix sh3
  assume post: "post_spec S now (polled S now sh1) sh3"
    and sh': "sh' = sh3\<lparr>sh_core := fst (collect_egress (sh_core sh3))\<rparr>"
    and io: "same_io (sh_core sh) (sh_core sh1)"
  have "config (sh_core (polled S now sh1)) = config (sh_core sh)"
    using io by (simp add: same_io_def polled_def poll_slots_def)
  then have "next_udp S now (sh_core (polled S now sh1)) k =
      (if duration_from_std S (cfg_udp_session_timeout (config (sh_core sh))) < instant_sub S now (ue_last_activity e')
       then None else Some e')"
    using assms(5,6) by (simp add: next_udp_def expired_def touched_def)
  then show ?thesis using post assms(5) by (auto simp: post_spec_def sh')
qed

theorem udp_sweep_exact_witness:
  "hm_get (mgr_udp (manager (sh_core (fst demo_polled)))) demo_udp_key =
    Some \<lparr>ue_socket = 2, ue_queue = 0, ue_last_activity = 5\<rparr>"
proof -
  obtain out where poll: "poll_locked demo demo_wire demo_ord 5 demo_queued = Some (fst demo_polled, snd demo_polled, out)"
    using demo_poll_locked by blast
  have "datagrams_at demo (sh_core (polled demo 5 (fst demo_pre))) demo_udp_key = [[7, 8]]" by code_simp
  moreover have "config (sh_core demo_queued) = demo_config" by code_simp
  ultimately show ?thesis
    using udp_sweep_exact [OF demo_laws demo_reachable(2) demo_pre_pass poll, of demo_udp_key
        "\<lparr>ue_socket = 2, ue_queue = 0, ue_last_activity = 5\<rparr>", OF _ refl] demo_mid_udp
    by (simp add: demo_mid_def polled_def demo_def demo_config_def)
qed

text \<open>
  C7. The life of a TCP entry across a poll, by the state of its socket: an entry is removed exactly when
  its stream was dropped and its socket is closed; otherwise it moves along Pending, Established, Closed
  as its socket is established and as it ends, and keeps everything else.
\<close>

theorem tcp_entry_transition:
  assumes "engine_laws S W" and "reachable S W (sh, live)"
    and "pre_pass S W now (sh, []) = Some (sh1, acc)"
    and "poll_locked S W ord now sh = Some (sh', accepted, out)"
    and "hm_get (mgr_tcp (manager (sh_core (polled S now sh1)))) k = Some e"
  shows "\<exists>fsm. fsm_at S (sh_core (polled S now sh1)) k e = Some fsm \<and>
    hm_get (mgr_tcp (manager (sh_core sh'))) k =
      (if te_orphaned e \<and> fsm = FsmClosed then None
       else Some (case te_state e of
            TcpPending \<Rightarrow> if fsm = FsmEstablished then e\<lparr>te_state := TcpEstablished\<rparr> else e
          | TcpEstablished \<Rightarrow>
              if fsm = FsmClosed \<or> fsm = FsmTimeWait \<or> fsm = FsmListen then e\<lparr>te_state := TcpClosed\<rparr> else e
          | TcpClosed \<Rightarrow> e))"
proof (rule poll_phases [OF assms(1-4)])
  fix sh3
  assume good: "sh_good S 0 (live @ acc) (polled S now sh1)" and post: "post_spec S now (polled S now sh1) sh3"
    and sh': "sh' = sh3\<lparr>sh_core := fst (collect_egress (sh_core sh3))\<rparr>"
  obtain fsm where fsm: "fsm_at S (sh_core (polled S now sh1)) k e = Some fsm"
    using fsm_at_Some [OF goodD(3) [OF good] assms(5)] by blast
  obtain h st orphaned where "e = \<lparr>te_handle = h, te_state = st, te_orphaned = orphaned\<rparr>" by (cases e) blast
  then have "next_tcp S (sh_core (polled S now sh1)) k =
      (if te_orphaned e \<and> fsm = FsmClosed then None
       else Some (case te_state e of
            TcpPending \<Rightarrow> if fsm = FsmEstablished then e\<lparr>te_state := TcpEstablished\<rparr> else e
          | TcpEstablished \<Rightarrow>
              if fsm = FsmClosed \<or> fsm = FsmTimeWait \<or> fsm = FsmListen then e\<lparr>te_state := TcpClosed\<rparr> else e
          | TcpClosed \<Rightarrow> e))"
    using assms(5) fsm by (cases st) (auto simp: next_tcp_def next_entry_at_def next_entry_def)
  then show ?thesis using post fsm by (auto simp: post_spec_def sh')
qed

theorem tcp_entry_transition_witness:
  "hm_get (mgr_tcp (manager (sh_core (fst demo_polled)))) demo_tcp_key =
    Some \<lparr>te_handle = 1, te_state = TcpEstablished, te_orphaned = False\<rparr>"
proof -
  obtain out where poll: "poll_locked demo demo_wire demo_ord 5 demo_queued = Some (fst demo_polled, snd demo_polled, out)"
    using demo_poll_locked by blast
  have "fsm_at demo (sh_core (polled demo 5 (fst demo_pre))) demo_tcp_key
      \<lparr>te_handle = 1, te_state = TcpPending, te_orphaned = False\<rparr> = Some FsmEstablished" by code_simp
  then show ?thesis
    using tcp_entry_transition [OF demo_laws demo_reachable(2) demo_pre_pass poll, of demo_tcp_key] demo_mid_tcp
    by (simp add: demo_mid_def polled_def)
qed

text \<open>
  C8. A poll hands out a TCP stream for exactly those pending entries whose socket is established, one
  stream per connection, carrying the entry's key and handle; the other sessions it hands out are the
  UDP sessions created in the pre-pass.
\<close>

theorem tcp_accept_exact:
  assumes "engine_laws S W" and "reachable S W (sh, live)"
    and "pre_pass S W now (sh, []) = Some (sh1, acc)"
    and "poll_locked S W ord now sh = Some (sh', accepted, out)"
  shows "\<exists>streams. accepted = acc @ map SessionTcp streams \<and> distinct (map ts_key streams) \<and>
    (\<forall>st. st \<in> set streams \<longleftrightarrow>
      (\<exists>k e. hm_get (mgr_tcp (manager (sh_core (polled S now sh1)))) k = Some e \<and> te_state e = TcpPending \<and>
        fsm_at S (sh_core (polled S now sh1)) k e = Some FsmEstablished \<and>
        st = way_tcp_stream_new (sk_interface k) k (te_handle e)
          (to_socket_addr (sk_src k)) (to_socket_addr (sk_dst k))))"
proof (rule poll_phases [OF assms])
  fix sh3
  assume good: "sh_good S 0 (live @ acc) (polled S now sh1)"
    and acc: "accepted = acc @ new_streams S ord (sh_core (polled S now sh1))"
  show ?thesis using new_streams_exact [OF tcp_wfD(1) [OF goodD(3) [OF good]], of S ord] acc by blast
qed

theorem tcp_accept_exact_witness:
  "\<exists>streams. snd demo_polled = snd demo_pre @ map SessionTcp streams \<and> distinct (map ts_key streams) \<and>
    demo_stream \<in> set streams"
proof -
  obtain out where poll: "poll_locked demo demo_wire demo_ord 5 demo_queued = Some (fst demo_polled, snd demo_polled, out)"
    using demo_poll_locked by blast
  have fsm: "fsm_at demo (sh_core (polled demo 5 (fst demo_pre))) demo_tcp_key
      \<lparr>te_handle = 1, te_state = TcpPending, te_orphaned = False\<rparr> = Some FsmEstablished" by code_simp
  obtain streams where streams: "snd demo_polled = snd demo_pre @ map SessionTcp streams" "distinct (map ts_key streams)"
    "\<forall>st. st \<in> set streams \<longleftrightarrow>
      (\<exists>k e. hm_get (mgr_tcp (manager (sh_core (polled demo 5 (fst demo_pre))))) k = Some e \<and> te_state e = TcpPending \<and>
        fsm_at demo (sh_core (polled demo 5 (fst demo_pre))) k e = Some FsmEstablished \<and>
        st = way_tcp_stream_new (sk_interface k) k (te_handle e)
          (to_socket_addr (sk_src k)) (to_socket_addr (sk_dst k)))"
    using tcp_accept_exact [OF demo_laws demo_reachable(2) demo_pre_pass poll] by blast
  have "demo_stream \<in> set streams"
    unfolding streams(3) [rule_format]
    by (rule exI [of _ demo_tcp_key], rule exI [of _ "\<lparr>te_handle = 1, te_state = TcpPending, te_orphaned = False\<rparr>"])
      (use fsm demo_mid_tcp in \<open>simp add: demo_mid_def polled_def demo_stream_def demo_tcp_key_def session_key_new_def\<close>)
  then show ?thesis using streams by blast
qed

text \<open>
  C9. Every TCP stream that exists owns its connection: its entry is registered under its key with its
  handle and is not orphaned, its socket exists, and no two streams that exist have the same key or the
  same socket.
\<close>

theorem tcp_streams_owned:
  assumes "engine_laws S W" and "reachable S W (sh, live)" and "SessionTcp st \<in> set live"
  shows "(\<exists>e. hm_get (mgr_tcp (manager (sh_core sh))) (ts_key st) = Some e \<and> te_handle e = ts_handle st \<and>
      \<not> te_orphaned e \<and> te_state e \<noteq> TcpPending) \<and>
    (\<exists>slot t. core_slot (sh_core sh) (ts_interface st) = Some slot \<and>
      get_mut_tcp S (sockets slot) (ts_handle st) = Some t) \<and>
    distinct [ts_key st. SessionTcp st \<leftarrow> live] \<and>
    (\<forall>st' \<in> {st'. SessionTcp st' \<in> set live}. ts_interface st' = ts_interface st \<longrightarrow>
      ts_handle st' = ts_handle st \<longrightarrow> ts_key st' = ts_key st)"
proof (intro conjI ballI impI)
  note good = reachable_good [OF assms(1,2)]
  note own = tcp_ownedD [OF goodD(7) [OF good]]
  show "\<exists>e. hm_get (mgr_tcp (manager (sh_core sh))) (ts_key st) = Some e \<and> te_handle e = ts_handle st \<and>
      \<not> te_orphaned e \<and> te_state e \<noteq> TcpPending" by (rule own(2) [OF assms(3)])
  show "\<exists>slot t. core_slot (sh_core sh) (ts_interface st) = Some slot \<and>
      get_mut_tcp S (sockets slot) (ts_handle st) = Some t"
    by (rule tcp_stream_socket [OF good assms(3)]) blast
  show "distinct [ts_key st. SessionTcp st \<leftarrow> live]" by (rule own(4))
  fix st' assume "st' \<in> {st'. SessionTcp st' \<in> set live}" and eq: "ts_interface st' = ts_interface st" "ts_handle st' = ts_handle st"
  then have st': "SessionTcp st' \<in> set live" by simp
  show "ts_key st' = ts_key st"
    using own(1,2) [OF assms(3)] own(1,2) [OF st'] eq tcp_wfD(6) [OF goodD(3) [OF good]] by metis
qed

theorem tcp_streams_owned_witness:
  "\<exists>e. hm_get (mgr_tcp (manager (sh_core (fst demo_polled)))) (ts_key demo_stream) = Some e \<and>
    te_handle e = ts_handle demo_stream \<and> \<not> te_orphaned e"
  using tcp_streams_owned [OF demo_laws demo_polled_reachable, of demo_stream] by (simp add: demo_polled_live) blast

text \<open>
  C10. Every UDP session whose queue is open is the one its entry was registered for, and no two of them
  with different keys share a queue: a datagram queued for one session is never read by another.
\<close>

theorem udp_sessions_isolated:
  assumes "engine_laws S W" and "reachable S W (sh, live)" and "SessionUdp us \<in> set live"
    and "\<not> is_closed (sh_queues sh ! us_queue us)"
  shows "(\<exists>e. hm_get (mgr_udp (manager (sh_core sh))) (us_key us) = Some e \<and> ue_queue e = us_queue us \<and>
      ue_socket e = us_socket us) \<and>
    (\<forall>us' \<in> {us'. SessionUdp us' \<in> set live}. us_queue us' = us_queue us \<longrightarrow> us_key us' = us_key us)"
proof (intro conjI ballI impI)
  note good = reachable_good [OF assms(1,2)]
  note own = udp_ownedD(3) [OF goodD(8) [OF good]]
  show "\<exists>e. hm_get (mgr_udp (manager (sh_core sh))) (us_key us) = Some e \<and> ue_queue e = us_queue us \<and>
      ue_socket e = us_socket us" using own [OF assms(3,4)] by blast
  fix us' assume "us' \<in> {us'. SessionUdp us' \<in> set live}" and eq: "us_queue us' = us_queue us"
  then have "SessionUdp us' \<in> set live" "\<not> is_closed (sh_queues sh ! us_queue us')" using assms(4) by simp_all
  from own [OF this] own [OF assms(3,4)] eq udp_wfD(8) [OF goodD(4) [OF good]]
  show "us_key us' = us_key us" by metis
qed

theorem udp_sessions_isolated_witness:
  "\<exists>e. hm_get (mgr_udp (manager (sh_core (fst demo_polled)))) (us_key demo_session) = Some e \<and>
    ue_queue e = us_queue demo_session"
  using udp_sessions_isolated [OF demo_laws demo_polled_reachable, of demo_session]
  by (simp add: demo_polled_live demo_polled_queues demo_session_def way_udp_session_new_def is_closed_def) blast

text \<open>
  The runner's loop is a run of the transition system: whatever one iteration of it does to the
  shared state and to the existing sessions is a sequence of the system's steps, so every invariant of
  the reachable states holds at each point where another task can take the lock.
\<close>

lemma run_iteration_refines:
  assumes "channel_law accept_send held"
    and "run_iteration S W egress_send accept_send ord t now wake pkts ru = Some (Some ru')"
    and "mset live = mset (ss @ held (ru_accept_tx ru) @ scratch_accepted ru)"
  shows "\<exists>as live'. run (step S W) (ru_shared ru, live) as (ru_shared ru', live') \<and>
    mset live' = mset (ss @ held (ru_accept_tx ru') @ scratch_accepted ru')"
proof -
  let ?sh = "snd (next_poll_delay S t (ru_shared ru))"
  obtain ps ru1 where poll: "poll_once S W egress_send accept_send ord now
      (ru\<lparr>ru_shared := fold queue_ingress ps ?sh\<rparr>) = Some ru1"
    and ru': "ru' = ru1\<lparr>ru_shared := notify_poll_done (ru_shared ru1)\<rparr>"
    using assms(2)
    by (auto simp: run_iteration_def Let_def bind_eq_Some_conv simp flip: fold_append split: option.splits)
  have "step S W (ActDelay t) (ru_shared ru, live) (?sh, live)" by (rule step_intro) simp_all
  note r1 = run_append [OF run_one [where step = "step S W", OF this] ingress_run [of S W ?sh live ps]]
  obtain as live' where r2: "run (step S W) (fold queue_ingress ps ?sh, live) as (ru_shared ru1, live')"
    and m: "mset live' = mset (ss @ held (ru_accept_tx ru1) @ scratch_accepted ru1)"
    using poll_once_run [OF assms(1) poll, of live ss] assms(3) by auto
  have "step S W ActNotifyDone (ru_shared ru1, live') (ru_shared ru', live')"
    by (rule step_intro) (simp_all add: ru')
  with run_append [OF run_append [OF r1 r2] run_one [where step = "step S W", OF this]] m show ?thesis by (auto simp: ru')
qed

text \<open>
  The runner's loop never panics and leaves only when the ingress channel is closed: from a reachable
  state one iteration always returns, and it returns the end of the loop exactly when it was woken by the
  closed channel.
\<close>

lemma runner_keeps_running:
  assumes "engine_laws S W" and "channel_law accept_send held"
    and "reachable S W (ru_shared ru, ss @ held (ru_accept_tx ru) @ scratch_accepted ru)"
  shows "\<exists>r. run_iteration S W egress_send accept_send ord t now wake pkts ru = Some r \<and>
    (r = None \<longleftrightarrow> wake = WakeIngress None)"
proof -
  obtain queued where S: "socket_set_laws S" "udp_bind_law S" "poll_laws S" "udp_recv_progress S queued" "wire_laws W"
    using assms(1) by (auto simp: engine_laws_def)
  show ?thesis using run_iteration_good [OF S assms(2) reachable_good [OF assms(1,3)]] by blast
qed

section \<open>New flows\<close>

text \<open>
  C13. The pre-pass only looks: it returns with every interface and every device, the queued packets
  included, exactly as it found them, so the poll that follows delivers every packet.
\<close>

theorem pre_pass_keeps_packets:
  assumes "engine_laws S W" and "reachable S W (sh, live)"
  shows "\<exists>sh' acc'. pre_pass S W now (sh, []) = Some (sh', acc') \<and>
    map (\<lambda>s. (slot_id s, iface s, device s)) (slots (sh_core sh')) =
    map (\<lambda>s. (slot_id s, iface s, device s)) (slots (sh_core sh))"
proof -
  have S: "socket_set_laws S" "udp_bind_law S" "wire_laws W" using assms(1) by (auto simp: engine_laws_def)
  have io: "slot_io = (\<lambda>s. (slot_id s, iface s, device s))" by (auto simp: slot_io_def)
  from pre_pass_good [OF S, of live "[]" sh now] reachable_good [OF assms]
  show ?thesis unfolding same_io_def io by auto
qed

theorem pre_pass_keeps_packets_witness:
  "map (\<lambda>s. (slot_id s, iface s, device s)) (slots (sh_core (fst demo_pre))) =
   map (\<lambda>s. (slot_id s, iface s, device s)) (slots (sh_core demo_queued))"
proof -
  obtain sh' acc' where pre: "pre_pass demo demo_wire 5 (demo_queued, []) = Some (sh', acc')"
    and io: "map (\<lambda>s. (slot_id s, iface s, device s)) (slots (sh_core sh')) =
      map (\<lambda>s. (slot_id s, iface s, device s)) (slots (sh_core demo_queued))"
    using pre_pass_keeps_packets [OF demo_laws demo_reachable(2), of 5] by blast
  have "sh' = fst demo_pre" using trans [OF pre [symmetric] demo_pre_pass] by (simp, metis fst_conv)
  then show ?thesis using io by simp
qed

text \<open>
  C14. A SYN of a new flow is ignored when its key is already registered, the connection limit is reached,
  or two more buffers would exceed the budget. Otherwise a socket, from the pool if it has one, is made to
  listen on the destination; if it cannot, nothing is registered or charged, and if it can, it is added
  under a new handle, exactly this flow is registered as pending on it, and two buffers are charged.
\<close>

theorem syn_allocates:
  assumes "engine_laws S W" and "reachable S W (sh, live)" and "i < length (slots (sh_core sh))"
    and "parse_l4 W pkt = Some (src, dst, L4_Tcp True)"
    and "key = session_key_new (slot_id (slots (sh_core sh) ! i)) ProtoTcp src dst"
  shows "\<exists>sh'. pre_pass_packet S W now i pkt (sh, acc) = Some (sh', acc) \<and>
    (if get_tcp (manager (sh_core sh)) key \<noteq> None \<or>
        unat (cfg_tcp_max_connections (config (sh_core sh))) \<le> length (mgr_tcp (manager (sh_core sh))) \<or>
        over_budget (2 * unat (cfg_tcp_buffer_size (config (sh_core sh)))) (sh_core sh)
     then sh' = sh
     else case tcp_listen S (idle_socket S (slots (sh_core sh) ! i)) (listen_at key) of
       Inl err \<Rightarrow> manager (sh_core sh') = manager (sh_core sh) \<and> buffer_bytes (sh_core sh') = buffer_bytes (sh_core sh)
     | Inr t \<Rightarrow>
       \<exists>h. sock_at S (sh_core sh) (sk_interface key) h = None \<and>
          sock_at S (sh_core sh') (sk_interface key) h = Some (TcpSocket t) \<and>
          manager (sh_core sh') = (manager (sh_core sh))\<lparr>mgr_tcp := hm_insert key
            \<lparr>te_handle = h, te_state = TcpPending, te_orphaned = False\<rparr> (mgr_tcp (manager (sh_core sh)))\<rparr> \<and>
          unat (buffer_bytes (sh_core sh')) =
            unat (buffer_bytes (sh_core sh)) + 2 * unat (cfg_tcp_buffer_size (config (sh_core sh))))"
proof (cases "get_tcp (manager (sh_core sh)) key \<noteq> None \<or>
    unat (cfg_tcp_max_connections (config (sh_core sh))) \<le> length (mgr_tcp (manager (sh_core sh)))")
  case True
  then show ?thesis using assms(4,5) by (auto simp: pre_pass_packet_def Let_def)
next
  case False
  let ?c = "sh_core sh"
  note good = reachable_good [OF assms(1,2)]
  have S: "socket_set_laws S" using assms(1) by (simp add: engine_laws_def)
  have room: "length (mgr_tcp (manager ?c)) < unat (cfg_tcp_max_connections (config ?c))" using False by simp
  have step: "pre_pass_packet S W now i pkt (sh, acc) = map_option (\<lambda>c. (sh\<lparr>sh_core := c\<rparr>, acc)) (alloc_tcp S i key ?c)"
    using False assms(4,5) by (cases "alloc_tcp S i key ?c") (auto simp: pre_pass_packet_def Let_def)
  have slot: "core_slot ?c (slot_id (slots ?c ! i)) = Some (slots ?c ! i)"
    by (rule core_slot_nth [OF goodD(2) [OF good] assms(3)])
  from good assms(3) room show ?thesis
  proof (cases rule: alloc_tcp_cases [where key = key])
    case refused
    then show ?thesis using False by (simp add: step tcp_cost_def)
  next
    case (deaf pool err)
    then show ?thesis using False by (simp add: step tcp_cost_def)
  next
    case (listening pool sock h socks b)
    have key: "sk_interface key = slot_id (slots ?c ! i)" using assms(5) by (simp add: session_key_new_def)
    have "sock_at S ?c (sk_interface key) h = None"
      using slot socket_set_lawsD(2) [OF S, of "sockets (slots ?c ! i)" "TcpSocket sock"] listening(3) key
      by (simp add: sock_at_slot)
    moreover have "ss_get S socks h = Some (TcpSocket sock)"
      using socket_set_lawsD(3) [OF S, of "sockets (slots ?c ! i)" "TcpSocket sock" h] listening(3) by simp
    ultimately show ?thesis
      using False listening(1,4,6,7) slot key
      by (auto simp: step tcp_cost_def get_tcp_def sock_at_cong [where c = "put_slot i c s" for i c s] sock_at_def
          core_slot_put_slot intro!: exI [of _ h])
  qed
qed

theorem syn_allocates_witness:
  "\<exists>sh'. pre_pass_packet demo demo_wire 5 0 (ig_data demo_syn) (demo_started, []) = Some (sh', []) \<and> sh' \<noteq> demo_started \<and>
    (\<exists>h. get_tcp (manager (sh_core sh')) demo_tcp_key = Some \<lparr>te_handle = h, te_state = TcpPending, te_orphaned = False\<rparr>)"
proof -
  have hyps: "0 < length (slots (sh_core demo_started))"
    "parse_l4 demo_wire (ig_data demo_syn) = Some (demo_src 40, demo_dst 80, L4_Tcp True)"
    "demo_tcp_key = session_key_new (slot_id (slots (sh_core demo_started) ! 0)) ProtoTcp (demo_src 40) (demo_dst 80)"
    by code_simp+
  have fresh: "get_tcp (manager (sh_core demo_started)) demo_tcp_key = None" by code_simp
  have reg: "get_tcp (manager (sh_core (fst (the (pre_pass_packet demo demo_wire 5 0 (ig_data demo_syn) (demo_started, [])))))) demo_tcp_key =
      Some \<lparr>te_handle = 1, te_state = TcpPending, te_orphaned = False\<rparr>" by code_simp
  obtain sh' where sh': "pre_pass_packet demo demo_wire 5 0 (ig_data demo_syn) (demo_started, []) = Some (sh', [])"
    using syn_allocates [OF demo_laws demo_reachable(1) hyps, of 5 "[]"] by blast
  then have "get_tcp (manager (sh_core sh')) demo_tcp_key =
      Some \<lparr>te_handle = 1, te_state = TcpPending, te_orphaned = False\<rparr>" using reg by simp
  then show ?thesis using sh' fresh by force
qed

text \<open>
  C15. The first datagram of a flow: it is ignored when the flow is registered or the session limit is
  reached. Otherwise, if a socket is bound to its destination, the session joins it at no charge and its
  reference count grows by one; if not, a socket is created and charged unless that exceeds the budget. The
  session that is handed out has an empty open queue of its own.
\<close>

theorem datagram_opens_session:
  assumes "engine_laws S W" and "reachable S W (sh, live)" and "i < length (slots (sh_core sh))"
    and "parse_l4 W pkt = Some (src, dst, L4_Udp)"
    and "key = session_key_new (slot_id (slots (sh_core sh) ! i)) ProtoUdp src dst"
  shows "if get_udp (manager (sh_core sh)) key \<noteq> None \<or>
      unat (cfg_udp_max_sessions (config (sh_core sh))) \<le> length (mgr_udp (manager (sh_core sh)))
    then pre_pass_packet S W now i pkt (sh, acc) = Some (sh, acc)
    else case hm_get (udp_dst_sockets (manager (sh_core sh))) (sk_interface key, dst) of
      Some (h, n) \<Rightarrow>
        \<exists>sh'. pre_pass_packet S W now i pkt (sh, acc) =
            Some (sh', acc @ [SessionUdp (new_udp_session key h (length (sh_queues sh)))]) \<and>
          sh_queues sh' = sh_queues sh @ [udp_queue_new] \<and>
          hm_get (udp_dst_sockets (manager (sh_core sh'))) (sk_interface key, dst) = Some (h, n + 1) \<and>
          slots (sh_core sh') = slots (sh_core sh) \<and> buffer_bytes (sh_core sh') = buffer_bytes (sh_core sh)
    | None \<Rightarrow>
        if over_budget (udp_cost (config (sh_core sh))) (sh_core sh)
        then pre_pass_packet S W now i pkt (sh, acc) = Some (sh, acc)
        else \<exists>sh' h. pre_pass_packet S W now i pkt (sh, acc) =
            Some (sh', acc @ [SessionUdp (new_udp_session key h (length (sh_queues sh)))]) \<and>
          sh_queues sh' = sh_queues sh @ [udp_queue_new] \<and>
          hm_get (udp_dst_sockets (manager (sh_core sh'))) (sk_interface key, dst) = Some (h, 1) \<and>
          unat (buffer_bytes (sh_core sh')) = unat (buffer_bytes (sh_core sh)) + udp_cost (config (sh_core sh))"
proof (cases "get_udp (manager (sh_core sh)) key \<noteq> None \<or>
    unat (cfg_udp_max_sessions (config (sh_core sh))) \<le> length (mgr_udp (manager (sh_core sh)))")
  case True
  then show ?thesis using assms(4,5) by (auto simp: pre_pass_packet_def Let_def)
next
  case False
  note good = reachable_good [OF assms(1,2)]
  have key: "sk_interface key = slot_id (slots (sh_core sh) ! i)" "sk_dst key = dst"
    using assms(5) by (simp_all add: session_key_new_def)
  have bind: "udp_bind_law S" and W: "wire_laws W" using assms(1) by (auto simp: engine_laws_def)
  have room: "length (mgr_udp (manager (sh_core sh))) < unat (cfg_udp_max_sessions (config (sh_core sh)))"
    using False by simp
  have port: "ep_port (sk_dst key) \<noteq> 0" using parse_l4_dst_port [OF W assms(4)] key by simp
  have step: "pre_pass_packet S W now i pkt (sh, acc) =
      map_option (\<lambda>(s, sh). (sh, case s of Some s \<Rightarrow> acc @ [s] | None \<Rightarrow> acc)) (alloc_udp S i key now sh)"
    using False assms(4,5) by (cases "alloc_udp S i key now sh") (auto simp: pre_pass_packet_def Let_def)
  from good assms(3) key(1) room bind port show ?thesis
  proof (cases rule: alloc_udp_cases [where now = now])
    case refused
    then show ?thesis using False by (simp add: step key(2))
  next
    case (shared h n)
    then show ?thesis using False by (simp add: step key(2) with_udp_def)
  next
    case (fresh sock h socks b)
    then show ?thesis using False by (simp add: step key(2) with_udp_def)
  qed
qed

theorem datagram_opens_session_witness:
  "\<exists>sh' h. pre_pass_packet demo demo_wire 5 0 (ig_data demo_datagram) (demo_started, []) =
      Some (sh', [SessionUdp (new_udp_session demo_udp_key h 0)]) \<and>
    hm_get (udp_dst_sockets (manager (sh_core sh'))) (sk_interface demo_udp_key, demo_dst 53) = Some (h, 1)"
proof -
  have hyps: "0 < length (slots (sh_core demo_started))"
    "parse_l4 demo_wire (ig_data demo_datagram) = Some (demo_src 50, demo_dst 53, L4_Udp)"
    "demo_udp_key = session_key_new (slot_id (slots (sh_core demo_started) ! 0)) ProtoUdp (demo_src 50) (demo_dst 53)"
    by code_simp+
  have start: "get_udp (manager (sh_core demo_started)) demo_udp_key = None"
    "hm_get (udp_dst_sockets (manager (sh_core demo_started))) (sk_interface demo_udp_key, demo_dst 53) = None"
    "mgr_udp (manager (sh_core demo_started)) = []" "sh_queues demo_started = []"
    "config (sh_core demo_started) = demo_config" "buffer_bytes (sh_core demo_started) = 0"
    by code_simp+
  show ?thesis
    using datagram_opens_session [OF demo_laws demo_reachable(1) hyps, of 5 "[]"]
    by (simp add: start demo_config_def over_budget_def udp_cost_def) blast
qed

section \<open>The post-pass\<close>

text \<open>
  Draining a UDP socket ends: provided that receiving a datagram takes it out of the socket, the loop
  returns, and it stops only when the socket reported that it is exhausted.
\<close>

lemma udp_drain_terminates:
  assumes "udp_recv_progress S queued"
  shows "\<exists>got u' u0. udp_drain S u = Some (got, u') \<and> udp_recv S u0 = (Inl RecvExhausted, u')"
  using udp_drain_total [OF assms] by blast

text \<open>
  C17. Everything the stack transmits in a poll leaves it: the packets a poll returns are those on the
  devices after the interfaces were polled, in order and tagged with their interface, and the devices'
  transmit queues are empty afterwards.
\<close>

theorem egress_complete:
  assumes "engine_laws S W" and "reachable S W (sh, live)"
    and "pre_pass S W now (sh, []) = Some (sh1, acc)"
    and "poll_locked S W ord now sh = Some (sh', accepted, out)"
  shows "out = concat (map (\<lambda>s. map (\<lambda>data. \<lparr>eg_interface_id = slot_id s, eg_data = data\<rparr>) (egress (device s)))
      (slots (sh_core (polled S now sh1)))) \<and>
    (\<forall>s \<in> set (slots (sh_core sh')). egress (device s) = [])"
proof (rule poll_phases [OF assms])
  fix sh3
  assume post: "post_spec S now (polled S now sh1) sh3"
    and sh': "sh' = sh3\<lparr>sh_core := fst (collect_egress (sh_core sh3))\<rparr>"
    and out: "out = snd (collect_egress (sh_core sh3))"
  let ?f = "\<lambda>(i, ifc, d). map (\<lambda>data. \<lparr>eg_interface_id = i, eg_data = data\<rparr>) (egress d)"
  have f: "(\<lambda>s. map (\<lambda>data. \<lparr>eg_interface_id = slot_id s, eg_data = data\<rparr>) (egress (device s))) = ?f \<circ> slot_io"
    by (auto simp: slot_io_def)
  have "map slot_io (slots (sh_core sh3)) = map slot_io (slots (sh_core (polled S now sh1)))"
    using post by (simp add: post_spec_def same_io_def)
  then have "map (?f \<circ> slot_io) (slots (sh_core sh3)) = map (?f \<circ> slot_io) (slots (sh_core (polled S now sh1)))"
    unfolding map_map [symmetric] by simp
  then show ?thesis unfolding out sh' f by (auto simp: collect_egress_def f)
qed

theorem egress_complete_witness:
  "list_all (\<lambda>s. egress (device s) = []) (slots (sh_core (fst demo_polled)))"
proof -
  obtain out where poll: "poll_locked demo demo_wire demo_ord 5 demo_queued = Some (fst demo_polled, snd demo_polled, out)"
    using demo_poll_locked by blast
  show ?thesis
    using egress_complete [OF demo_laws demo_reachable(2) demo_pre_pass poll] unfolding list_all_iff by blast
qed

section \<open>Dropping sessions\<close>

text \<open>
  C18. Dropping a TCP stream closes its socket if it is open and marks its entry as orphaned; the entry and
  the socket stay, for the poll to reap when the socket has closed, and no other entry changes.
\<close>

theorem tcp_drop_orphans:
  assumes "engine_laws S W" and "reachable S W (sh, live)" and "SessionTcp st \<in> set live"
  shows "\<exists>sh' e t. tcp_drop S st sh = Some sh' \<and>
    hm_get (mgr_tcp (manager (sh_core sh))) (ts_key st) = Some e \<and>
    mgr_tcp (manager (sh_core sh')) =
      hm_insert (ts_key st) (e\<lparr>te_orphaned := True\<rparr>) (mgr_tcp (manager (sh_core sh))) \<and>
    sock_at S (sh_core sh) (ts_interface st) (ts_handle st) = Some (TcpSocket t) \<and>
    sock_at S (sh_core sh') (ts_interface st) (ts_handle st) =
      Some (TcpSocket (if tcp_is_open S t then tcp_close S t else t)) \<and>
    buffer_bytes (sh_core sh') = buffer_bytes (sh_core sh) \<and> poll_notify sh' = Suc (poll_notify sh)"
proof -
  note good = reachable_good [OF assms(1,2)]
  have S: "socket_set_laws S" using assms(1) by (simp add: engine_laws_def)
  obtain e where e: "hm_get (mgr_tcp (manager (sh_core sh))) (ts_key st) = Some e"
    using tcp_ownedD(2) [OF goodD(7) [OF good] assms(3)] by blast
  obtain slot t where slot: "core_slot (sh_core sh) (ts_interface st) = Some slot"
    and t: "get_mut_tcp S (sockets slot) (ts_handle st) = Some t"
    by (rule tcp_stream_socket [OF good assms(3)])
  have id': "slot_id slot = ts_interface st" using slot by (rule core_slot_Some)
  have get: "ss_get S (sockets slot) (ts_handle st) = Some (TcpSocket t)" using t by (simp add: get_mut_tcp_Some)
  then show ?thesis
    using e slot t id' socket_set_lawsD(4) [OF S, of "sockets slot" "ts_handle st" "TcpSocket (tcp_close S t)"]
    by (auto simp: tcp_drop_def close_if_open_def set_orphaned_def update_tcp_entry_def notify_poll_def
        put_tcp_def put_socket_def sock_at_def core_slot_put_slot)
qed

theorem tcp_drop_orphans_witness:
  "\<exists>sh'. tcp_drop demo demo_stream (fst demo_polled) = Some sh' \<and>
    mgr_tcp (manager (sh_core sh')) =
      [(demo_tcp_key, \<lparr>te_handle = 1, te_state = TcpEstablished, te_orphaned = True\<rparr>)]"
  using tcp_drop_orphans [OF demo_laws demo_polled_reachable, of demo_stream]
  by (simp add: demo_polled_live demo_polled_tcp demo_stream_def way_tcp_stream_new_def) blast

text \<open>
  C19. Dropping an open UDP session removes its entry and closes its queue. If other sessions share its
  socket, only the reference count goes down by one; the last session takes the socket with it and its
  bytes are given back.
\<close>

theorem udp_drop_releases:
  assumes "engine_laws S W" and "reachable S W (sh, live)" and "SessionUdp us \<in> set live"
    and "\<not> is_closed (sh_queues sh ! us_queue us)"
  shows "\<exists>sh' n. udp_drop S us sh = Some sh' \<and>
    mgr_udp (manager (sh_core sh')) = hm_remove (us_key us) (mgr_udp (manager (sh_core sh))) \<and>
    is_closed (sh_queues sh' ! us_queue us) \<and>
    hm_get (udp_dst_sockets (manager (sh_core sh))) (us_interface us, sk_dst (us_key us)) = Some (us_socket us, n) \<and>
    (if unat n \<le> 1
     then hm_get (udp_dst_sockets (manager (sh_core sh'))) (us_interface us, sk_dst (us_key us)) = None \<and>
       sock_at S (sh_core sh') (us_interface us) (us_socket us) = None \<and>
       unat (buffer_bytes (sh_core sh')) = unat (buffer_bytes (sh_core sh)) - udp_cost (config (sh_core sh))
     else hm_get (udp_dst_sockets (manager (sh_core sh'))) (us_interface us, sk_dst (us_key us)) =
         Some (us_socket us, n - 1) \<and>
       slots (sh_core sh') = slots (sh_core sh) \<and> buffer_bytes (sh_core sh') = buffer_bytes (sh_core sh))"
proof -
  let ?c = "sh_core sh" and ?k = "us_key us"
  note good = reachable_good [OF assms(1,2)]
  note own = udp_ownedD [OF goodD(8) [OF good]]
  have S: "socket_set_laws S" using assms(1) by (simp add: engine_laws_def)
  obtain e where e: "hm_get (mgr_udp (manager ?c)) ?k = Some e" "ue_socket e = us_socket us" "ue_queue e = us_queue us"
    using own(3) [OF assms(3,4)] by blast
  have i: "us_interface us = sk_interface ?k" by (rule own(1) [OF assms(3)])
  have room: "0 < unat (cfg_udp_max_sessions (config ?c))"
    using udp_wfD(3) [OF goodD(4) [OF good]] e(1) by (cases "mgr_udp (manager ?c)") auto
  note cost = unat_udp_per_socket_bytes [OF goodD(1) [OF good] room]
  show ?thesis
  proof (rule udp_unregister_present [OF good e(1)])
    fix slot n
    assume slot: "core_slot ?c (sk_interface ?k) = Some slot" "ss_get S (sockets slot) (ue_socket e) \<noteq> None"
      "slot_mtu slot = cfg_mtu (config ?c)"
      and dst: "hm_get (udp_dst_sockets (manager ?c)) (sk_interface ?k, sk_dst ?k) = Some (ue_socket e, n)"
      and un: "udp_unregister S (sk_interface ?k) ?k (?c, sh_queues sh) =
        (let c' = ?c\<lparr>manager := (manager ?c)\<lparr>mgr_udp := hm_remove ?k (mgr_udp (manager ?c)),
               udp_dst_sockets := released_dst (sk_interface ?k, sk_dst ?k) (ue_socket e) n
                 (udp_dst_sockets (manager ?c))\<rparr>\<rparr>;
             qs' = (sh_queues sh)[ue_queue e := mark_closed (sh_queues sh ! ue_queue e)]
         in Some (if unat n \<le> 1
              then (Some (slot_mtu slot), put_slot (sk_interface ?k)
                (slot\<lparr>sockets := ss_remove S (sockets slot) (ue_socket e)\<rparr>) c', qs')
              else (None, c', qs')))"
    have "slot_id slot = sk_interface ?k" using slot(1) by (rule core_slot_Some)
    then show ?thesis
      using own(2) [OF assms(3)] un slot dst e i cost socket_set_lawsD(5) [OF S slot(2)]
      by (auto simp: udp_drop_def Let_def notify_poll_def release_buffer_def sock_at_def core_slot_put_slot
          released_dst_get)
  qed
qed

theorem udp_drop_releases_witness:
  "\<exists>sh' n. udp_drop demo demo_session (fst demo_polled) = Some sh' \<and> mgr_udp (manager (sh_core sh')) = [] \<and>
    hm_get (udp_dst_sockets (manager (sh_core (fst demo_polled)))) (InterfaceId 1, demo_dst 53) = Some (2, n) \<and>
    is_closed (sh_queues sh' ! 0)"
  using udp_drop_releases [OF demo_laws demo_polled_reachable, of demo_session]
  by (simp add: demo_polled_live demo_polled_udp demo_polled_queues demo_session_def way_udp_session_new_def
      is_closed_def demo_udp_key_def session_key_new_def) blast

text \<open>
  A UDP session the sweep has reaped is harmless while it is only used: reading returns the datagrams
  that were left and then the end, and sending is refused without a look at the socket, which may by then
  belong to another flow.
\<close>

lemma stale_session_refused:
  assumes "is_closed (sh_queues sh ! us_queue us)"
  shows "udp_send_poll S us payload sh = Some (PollReady (Inl UdpNotOpen), sh) \<and>
    (q_inner (sh_queues sh ! us_queue us) = [] \<longrightarrow> udp_recv_poll us sh = (PollReady None, sh))"
  using assms by (simp add: udp_send_poll_def udp_try_send_def udp_recv_poll_def udp_queue_pop_def)

text \<open>
  What the UDP side of the stack promises, without sockets, handles, reference counts and iteration orders:
  flows with the time of their last datagram and the datagrams waiting to be read.
\<close>

type_synonym udp_flows = "session_key \<rightharpoonup> instant \<times> bytes list"

definition udp_flows_of :: "('i, 's, 't) shared \<Rightarrow> udp_flows" where
  "udp_flows_of sh k =
     map_option (\<lambda>e. (ue_last_activity e, q_inner (sh_queues sh ! ue_queue e))) (hm_get (mgr_udp (manager (sh_core sh))) k)"

definition relay_spec ::
    "(instant \<Rightarrow> bool) \<Rightarrow> instant \<Rightarrow> (session_key \<Rightarrow> bytes list) \<Rightarrow> udp_flows \<Rightarrow> udp_flows" where
  "relay_spec timed_out now arrived flows k =
     (case flows k of
        None \<Rightarrow> None
      | Some (active, waiting) \<Rightarrow>
          (let active' = (if arrived k = [] then active else now)
           in if timed_out active' then None else Some (active', waiting @ arrived k)))"



text \<open>
  C21. Dropping a reaped UDP session is not harmless: if its flow has meanwhile been registered again, the
  drop finds the new session under the same key, removes it from the registry and closes its queue.
\<close>

theorem stale_drop_removes_successor:
  assumes "engine_laws S W" and "reachable S W (sh, live)" and "SessionUdp old \<in> set live"
    and "hm_get (mgr_udp (manager (sh_core sh))) (us_key old) = Some e"
    and "ue_queue e \<noteq> us_queue old"
  shows "\<exists>sh'. udp_drop S old sh = Some sh' \<and> hm_get (mgr_udp (manager (sh_core sh'))) (us_key old) = None \<and>
    is_closed (sh_queues sh' ! ue_queue e) \<and> \<not> is_closed (sh_queues sh ! ue_queue e)"
proof -
  note good = reachable_good [OF assms(1,2)]
  have S: "socket_set_laws S" using assms(1) by (simp add: engine_laws_def)
  have i: "us_interface old = sk_interface (us_key old)" by (rule udp_ownedD(1) [OF goodD(8) [OF good] assms(3)])
  obtain removed c' qs' where un: "udp_unregister S (us_interface old) (us_key old) (sh_core sh, sh_queues sh) =
      Some (removed, c', qs')" and c': "mgr_udp (manager c') = hm_remove (us_key old) (mgr_udp (manager (sh_core sh)))"
    "is_closed (qs' ! ue_queue e)"
    using udp_unregister_good [OF S good, of "us_key old"] assms(4) i by auto
  have "\<not> is_closed (sh_queues sh ! ue_queue e)" by (rule udp_wfD(6) [OF goodD(4) [OF good] assms(4)])
  then show ?thesis using un c' by (cases removed) (auto simp: udp_drop_def)
qed

theorem stale_drop_removes_successor_witness:
  "\<exists>sh'. udp_drop demo demo_session (fst demo_again) = Some sh' \<and>
    hm_get (mgr_udp (manager (sh_core sh'))) (us_key demo_session) = None \<and> is_closed (sh_queues sh' ! 1) \<and>
    \<not> is_closed (sh_queues (fst demo_again) ! 1)"
  using stale_drop_removes_successor [OF demo_laws demo_again_reachable demo_again_live] demo_again_udp
  by (simp add: demo_session_def way_udp_session_new_def)

text \<open>
  A pending connection is never given up: no step of the system removes a pending entry, whatever the
  state of its socket. Only a poll that finds the socket established changes it. A flow whose handshake
  does not complete therefore keeps its place in the connection table and its share of the budget.
\<close>

lemma pending_entry_never_removed:
  assumes "engine_laws S W" and "reachable S W (sh, live)"
    and "hm_get (mgr_tcp (manager (sh_core sh))) k = Some e" and "te_state e = TcpPending"
    and "step S W a (sh, live) (sh', live')"
  shows "hm_get (mgr_tcp (manager (sh_core sh'))) k = Some e \<or>
    hm_get (mgr_tcp (manager (sh_core sh'))) k = Some (e\<lparr>te_state := TcpEstablished\<rparr>)"
proof -
  have "world_good S (sh, live)" using reachable_good [OF assms(1,2)] by (simp add: world_good_def)
  moreover have "enabled a live" "perform S W a (sh, live) = Some (sh', live')"
    using assms(5) by (auto elim: stepE)
  ultimately show ?thesis using perform_keeps_pending [OF assms(1) _ _ assms(3,4)] by blast
qed

text \<open>
  When a new UDP socket cannot be bound, the bytes reserved for it stay charged: the allocation ends
  with no session and no socket registered and a higher counter.
\<close>

lemma failed_bind_keeps_charge:
  assumes "i < length (slots (sh_core sh))"
    and "hm_get (udp_dst_sockets (manager (sh_core sh))) (sk_interface key, sk_dst key) = None"
    and "sk_interface key = slot_id (slots (sh_core sh) ! i)"
    and "reserve_buffer (udp_per_socket_bytes (config (sh_core sh)) (slot_mtu (slots (sh_core sh) ! i))) (sh_core sh) = (True, c)"
    and "\<And>u. \<exists>err. udp_bind S u (sk_dst key) = Inl err"
  shows "\<exists>sh'. alloc_udp S i key now sh = Some (None, sh') \<and> manager (sh_core sh') = manager (sh_core sh) \<and>
    slots (sh_core sh') = slots (sh_core sh) \<and>
    buffer_bytes (sh_core sh') =
      buffer_bytes (sh_core sh) + udp_per_socket_bytes (config (sh_core sh)) (slot_mtu (slots (sh_core sh) ! i))"
proof -
  have c: "manager c = manager (sh_core sh)" "slots c = slots (sh_core sh)"
    using reserve_buffer_result [OF assms(4)] by simp_all
  have b: "buffer_bytes c = buffer_bytes (sh_core sh) +
      udp_per_socket_bytes (config (sh_core sh)) (slot_mtu (slots (sh_core sh) ! i))"
    using assms(4) by (auto simp: reserve_buffer_def split: option.splits if_splits)
  have create: "udp_create S p n (sk_dst key) slot = (None, slot)" for p n slot
    using assms(5) [of "udp_new S (p, n) (p, n)"] by (auto simp: udp_create_def Let_def)
  show ?thesis
    using assms(1-4) by (simp add: alloc_udp_def udp_socket_for_def Let_def create c b list_update_id)
qed

end
